theory Spec2Isabelle
  imports Complex_Main "HOL-Library.Sublist"
begin

section \<open>JavaScript strings\<close>

text \<open>
  A JavaScript string is a sequence of UTF-16 code units. All text of
  \<^verbatim>\<open>GameContainer.tsx\<close> lies in the Basic Multilingual Plane, so every character
  of the source is one code unit, written here as its number. ASCII text is written as an
  Isabelle string and converted by \<open>asc\<close>; other characters are given by code point.
\<close>

type_synonym jsstring = "nat list"

definition asc :: "string \<Rightarrow> jsstring" where
  "asc s = map of_char s"

text \<open>The lines of a template literal, each preceded by its line feed.\<close>

definition js_lines :: "jsstring list \<Rightarrow> jsstring" where
  "js_lines ls = concat (map (\<lambda>l. 10 # l) ls)"

subsection \<open>\<^verbatim>\<open>String.prototype.includes\<close> and \<^verbatim>\<open>String.prototype.replace\<close> with a string pattern\<close>

text \<open>
  \<open>find_first pat s\<close> is the search both methods share: the text before and the text after
  the first occurrence of \<open>pat\<close> in \<open>s\<close>, or \<open>None\<close> when there is none.
\<close>

fun find_first :: "jsstring \<Rightarrow> jsstring \<Rightarrow> (jsstring \<times> jsstring) option" where
  "find_first pat [] = (if pat = [] then Some ([], []) else None)"
| "find_first pat (c # cs) =
     (if prefix pat (c # cs) then Some ([], drop (length pat) (c # cs))
      else map_option (\<lambda>(p, f). (c # p, f)) (find_first pat cs))"

definition js_includes :: "jsstring \<Rightarrow> jsstring \<Rightarrow> bool" where
  "js_includes s pat = (find_first pat s \<noteq> None)"

text \<open>
  The replacement text of \<^verbatim>\<open>replace\<close> is a template: \<^verbatim>\<open>$$\<close> stands for a dollar sign,
  \<^verbatim>\<open>$&\<close> for the matched text, \<^verbatim>\<open>$`\<close> for the text before the match and \<^verbatim>\<open>$'\<close> for the
  text after it. A string pattern has no capture groups, so every other \<^verbatim>\<open>$\<close> stands for
  itself. The arguments are the matched text, the text before, the text after, and the template.
\<close>

fun GetSubstitution :: "jsstring \<Rightarrow> jsstring \<Rightarrow> jsstring \<Rightarrow> jsstring \<Rightarrow> jsstring" where
  "GetSubstitution m p f [] = []"
| "GetSubstitution m p f [c] = [c]"
| "GetSubstitution m p f (c # d # ds) =
     (if c = 36 \<and> d = 36 then 36 # GetSubstitution m p f ds
      else if c = 36 \<and> d = 38 then m @ GetSubstitution m p f ds
      else if c = 36 \<and> d = 96 then p @ GetSubstitution m p f ds
      else if c = 36 \<and> d = 39 then f @ GetSubstitution m p f ds
      else c # GetSubstitution m p f (d # ds))"

definition js_replace :: "jsstring \<Rightarrow> jsstring \<Rightarrow> jsstring \<Rightarrow> jsstring" where
  "js_replace s pat template =
     (case find_first pat s of
        None \<Rightarrow> s
      | Some (p, f) \<Rightarrow> p @ GetSubstitution pat p f template @ f)"

section \<open>The enhancement bundle\<close>

text \<open>
  The template literal \<^verbatim>\<open>enhancements\<close> of \<^verbatim>\<open>injectGameEnhancements\<close>, line by line. It
  holds no backslash and no interpolation, so its value is its text.
\<close>

definition enh_dialogs :: jsstring where
  \<open>enh_dialogs = js_lines
   [asc ''      <script>'',
    asc ''        // '' @ [26367, 25442] @ asc ''alert'' @ [20026, 33258, 23450, 20041, 25552, 31034],
    asc ''        window.alert = function(msg) {'',
    asc ''          window.parent.postMessage({'',
    asc ''            type: \'game-alert\','',
    asc ''            message: msg'',
    asc ''          }, \'*\');'',
    asc ''        };'',
    asc ''        '',
    asc ''        // '' @ [26367, 25442] @ asc ''confirm'' @ [20026, 33258, 23450, 20041, 30830, 35748],
    asc ''        window.confirm = function(msg) {'',
    asc ''          window.parent.postMessage({'',
    asc ''            type: \'game-confirm\','',
    asc ''            message: msg'',
    asc ''          }, \'*\');'',
    asc ''          return true; // '' @ [40664, 35748, 30830, 35748],
    asc ''        };'',
    asc ''        '']\<close>

definition enh_status :: jsstring where
  \<open>enh_status = js_lines
   [asc ''        // '' @ [21457, 36865, 28216, 25103, 29366, 24577],
    asc ''        function sendGameStatus(status, data) {'',
    asc ''          window.parent.postMessage({'',
    asc ''            type: \'game-status\','',
    asc ''            status: status,'',
    asc ''            data: data'',
    asc ''          }, \'*\');'',
    asc ''        }'',
    asc ''        '']\<close>

definition enh_pick_root :: jsstring where
  \<open>enh_pick_root = js_lines
   [asc ''        // '' @ [36873, 25321, 28216, 25103, 26681, 33410, 28857, 65306, 20248, 20808, 24120, 35265, 36873, 25321, 22120, 65292, 20854, 27425, 36873, 25321] @ asc '' body '' @ [19979, 38754, 31215, 26368, 22823, 30340, 20803, 32032],
    asc ''        function pickGameRoot() {'',
    asc ''          const prefer = document.querySelector(\'#game-container, .game-area, .game-root, .game, .stage\');'',
    asc ''          if (prefer) return prefer;'',
    asc ''          const nodes = Array.from(document.body.querySelectorAll(\'*\')) as HTMLElement[];'',
    asc ''          let best: HTMLElement | null = null;'',
    asc ''          let bestArea = 0;'',
    asc ''          for (const el of nodes) {'',
    asc ''            if (!el.offsetWidth || !el.offsetHeight) continue;'',
    asc ''            const style = getComputedStyle(el);'',
    asc ''            if (style.position === \'fixed\' || el.tagName === \'SCRIPT\' || el.tagName === \'STYLE\') continue;'',
    asc ''            const area = el.offsetWidth * el.offsetHeight;'',
    asc ''            if (area > bestArea) { bestArea = area; best = el; }'',
    asc ''          }'',
    asc ''          return best || document.body.firstElementChild as HTMLElement | null;'',
    asc ''        }'',
    []]\<close>

definition enh_resize :: jsstring where
  \<open>enh_resize = js_lines
   [asc ''        // '' @ [33258, 36866, 24212, 22788, 29702, 65306, 23613, 37327, 22635, 28385, 21487, 35270, 21306, 22495, 65288, 19981, 20351, 29992] @ asc '' transform'' @ [65292, 36991, 20813, 24067, 23616, 38169, 20301, 65289],
    asc ''        function handleResize() {'',
    asc ''          const root = pickGameRoot();'',
    asc ''          if (!root) return;'',
    asc ''          const vw = Math.max(320, Math.floor(window.innerWidth * 0.92));'',
    asc ''          const vh = Math.max(320, Math.floor(window.innerHeight * 0.88));'',
    [],
    asc ''          // '' @ [36890, 29992, 23481, 22120, 38480, 21046],
    asc ''          root.style.maxWidth = vw + \'px\';'',
    asc ''          root.style.maxHeight = vh + \'px\';'',
    asc ''          root.style.margin = \'0 auto\';'',
    asc ''          root.style.display = \'block\';'',
    asc ''          root.style.transform = '' @ [39, 39] @ asc '';'',
    asc ''          (root as any).style?.removeProperty?.(\'transform\');'',
    [],
    asc ''          // '' @ [38024, 23545] @ asc '' Canvas '' @ [30340, 31561, 27604, 32553, 25918],
    asc ''          const canvas = (root.tagName === \'CANVAS\') ? root as HTMLCanvasElement : (document.querySelector(\'canvas\') as HTMLCanvasElement | null);'',
    asc ''          if (canvas) {'',
    asc ''            try {'',
    asc ''              const cw = canvas.width || canvas.getAttribute(\'width\') || 800;'',
    asc ''              const ch = canvas.height || canvas.getAttribute(\'height\') || 600;'',
    asc ''              const ratio = Number(cw) / Number(ch);'',
    asc ''              const targetWidth = Math.min(vw, Math.round(vh * ratio));'',
    asc ''              const targetHeight = Math.round(Number(targetWidth) / ratio);'',
    asc ''              canvas.style.width = String(targetWidth) + \'px\';'',
    asc ''              canvas.style.height = String(targetHeight) + \'px\';'',
    asc ''              canvas.style.display = \'block\';'',
    asc ''              canvas.style.margin = \'0 auto\';'',
    asc ''            } catch (e) { /* '' @ [24573, 30053] @ asc '' */ }'',
    asc ''          } else {'',
    asc ''            // '' @ [38750] @ asc '' canvas'' @ [65306, 23613, 37327, 20445, 25345, 31561, 27604, 65292, 36991, 20813, 39640, 24230, 28322, 20986],
    asc ''            const rw = root.scrollWidth || root.clientWidth || 800;'',
    asc ''            const rh = root.scrollHeight || root.clientHeight || 600;'',
    asc ''            const r = rw / (rh || 1);'',
    asc ''            const w = Math.min(vw, Math.round(vh * r));'',
    asc ''            root.style.width = w + \'px\';'',
    asc ''          }'',
    asc ''        }'',
    asc ''        '']\<close>

definition enh_wiring :: jsstring where
  \<open>enh_wiring = js_lines
   [asc ''        window.addEventListener(\'resize\', handleResize);'',
    asc ''        window.addEventListener(\'orientationchange\', handleResize);'',
    asc ''        window.addEventListener(\'load\', handleResize);'',
    asc ''        '',
    asc ''        // '' @ [30417, 21548, 24471, 20998, 21464, 21270],
    asc ''        document.addEventListener(\'DOMContentLoaded\', function() {'',
    asc ''          // '' @ [23581, 35797, 33719, 21462, 28216, 25103, 20998, 25968, 20803, 32032],
    asc ''          const observer = new MutationObserver(function() {'',
    asc ''            const scoreElement = document.querySelector(\'[class*="score"], [id*="score"]\');'',
    asc ''            if (scoreElement) {'',
    asc ''              sendGameStatus(\'score-update\', { score: scoreElement.textContent });'',
    asc ''            }'',
    asc ''          });'',
    asc ''          observer.observe(document.body, { childList: true, subtree: true, characterData: true });'',
    asc ''          setTimeout(handleResize, 50);'',
    asc ''          const ro = new ResizeObserver(() => handleResize());'',
    asc ''          ro.observe(document.body);'',
    asc ''        });'',
    asc ''      </script>'']\<close>

definition enh_style :: jsstring where
  \<open>enh_style = js_lines
   [asc ''      <style>'',
    asc ''        /* '' @ [36991, 20813, 20840, 23616, 35206, 30422] @ asc '' body '' @ [24067, 23616, 65292, 20165, 20570, 22522, 30784, 37325, 32622, 19982, 32972, 26223] @ asc '' */'',
    asc ''        html, body {'',
    asc ''          margin: 0;'',
    asc ''          padding: 0;'',
    asc ''          min-height: 100vh;'',
    asc ''          background: linear-gradient(135deg, #667eea 0%, #764ba2 100%);'',
    asc ''        }'',
    asc ''        '',
    asc ''        /* '' @ [23558, 24067, 23616, 38480, 21046, 22312, 28216, 25103, 23481, 22120, 20869] @ asc '' */'',
    asc ''        .game-area, #game-container, .container {'',
    asc ''          max-width: 100% !important;'',
    asc ''          max-height: 100vh !important;'',
    asc ''          margin: 0 auto !important;'',
    asc ''        }'',
    asc ''        '',
    asc ''        /* '' @ [21709, 24212, 24335] @ asc ''Canvas */'',
    asc ''        canvas {'',
    asc ''          max-width: 100% !important;'',
    asc ''          height: auto !important;'',
    asc ''        }'',
    asc ''      </style>'',
    asc ''    '']\<close>

definition enhancements :: jsstring where
  "enhancements = enh_dialogs @ enh_status @ enh_pick_root @ enh_resize @ enh_wiring @ enh_style"

section \<open>The Enhancement Injector\<close>

definition head_close :: jsstring where
  "head_close = asc ''</head>''"

definition head_open :: jsstring where
  "head_open = asc ''<head>''"

definition body_open :: jsstring where
  "body_open = asc ''<body>''"

definition injectGameEnhancements :: "jsstring \<Rightarrow> jsstring" where
  "injectGameEnhancements html =
     (if js_includes html head_close then js_replace html head_close (enhancements @ head_close)
      else if js_includes html body_open
        then js_replace html body_open (head_open @ enhancements @ head_close @ body_open)
      else enhancements @ html)"

text \<open>
  The positions at which \<open>pat\<close> occurs in \<open>s\<close>, in increasing order: the property
  "the output contains the bundle exactly once" is that this list has one element.
\<close>

definition occurrences :: "jsstring \<Rightarrow> jsstring \<Rightarrow> nat list" where
  "occurrences pat s = filter (\<lambda>i. prefix pat (drop i s)) [0..<Suc (length s)]"

section \<open>Regular expressions\<close>

text \<open>
  The regular expressions of \<^verbatim>\<open>GameContainer.tsx\<close> use literal text, the classes
  \<^verbatim>\<open>\s\<close>, \<^verbatim>\<open>\d\<close> and \<^verbatim>\<open>.\<close>, bracketed classes, alternation, the quantifiers
  \<^verbatim>\<open>*\<close>, \<^verbatim>\<open>+\<close> and \<^verbatim>\<open>*?\<close>, and capture groups. None is global, sticky or anchored.
\<close>

datatype atom = Ch nat | Space | Digit | Dot

datatype regex =
    One atom
  | AnyOf "atom list"
  | NoneOf "atom list"
  | Lit jsstring
  | Seq regex regex
  | Alt regex regex
  | Star regex
  | Lazy regex
  | Group nat regex

definition Plus :: "regex \<Rightarrow> regex" where
  "Plus r = Seq r (Star r)"

text \<open>
  Under the flag \<^verbatim>\<open>i\<close> two code units match when \<^verbatim>\<open>Canonicalize\<close> maps them to the same
  code unit. The patterns of this program hold ASCII characters and caseless characters
  (CJK ideographs) only; against such a pattern character \<^verbatim>\<open>Canonicalize\<close> can tell input
  characters apart only by the upper-case form of the ASCII letters, which is what \<open>canon\<close>
  computes (a character outside ASCII is never mapped into ASCII).
\<close>

definition canon :: "nat \<Rightarrow> nat" where
  "canon c = (if 97 \<le> c \<and> c \<le> 122 then c - 32 else c)"

definition ch_eq :: "bool \<Rightarrow> nat \<Rightarrow> nat \<Rightarrow> bool" where
  "ch_eq ic x c = (if ic then canon x = canon c else x = c)"

text \<open>\<^verbatim>\<open>\s\<close>: white space and line terminators.\<close>

definition is_space :: "nat \<Rightarrow> bool" where
  "is_space c = (c \<in> {9, 10, 11, 12, 13, 32, 160, 5760, 8232, 8233, 8239, 8287, 12288, 65279}
                 \<or> (8192 \<le> c \<and> c \<le> 8202))"

definition is_digit :: "nat \<Rightarrow> bool" where
  "is_digit c = (48 \<le> c \<and> c \<le> 57)"

text \<open>\<^verbatim>\<open>.\<close> without the flag \<^verbatim>\<open>s\<close>: every code unit but the line terminators.\<close>

definition is_line_terminator :: "nat \<Rightarrow> bool" where
  "is_line_terminator c = (c \<in> {10, 13, 8232, 8233})"

fun atom_match :: "bool \<Rightarrow> atom \<Rightarrow> nat \<Rightarrow> bool" where
  "atom_match ic (Ch x) c = ch_eq ic x c"
| "atom_match ic Space c = is_space c"
| "atom_match ic Digit c = is_digit c"
| "atom_match ic Dot c = (\<not> is_line_terminator c)"

text \<open>
  The backtracking matcher. A match state is the input still to be read and the captures
  made so far; \<open>ms ic r st\<close> lists the states in which \<open>r\<close> can end when started in \<open>st\<close>, in
  the order in which backtracking tries them (a greedy star tries one more iteration
  first, a lazy star tries to stop first; as in the language, an iteration that reads
  nothing is not taken). The first flag is \<^verbatim>\<open>ignoreCase\<close>.
\<close>

type_synonym captures = "(nat \<times> jsstring) list"
type_synonym mstate = "jsstring \<times> captures"

function ms :: "bool \<Rightarrow> regex \<Rightarrow> mstate \<Rightarrow> mstate list" where
  "ms ic (One a) st =
     (case fst st of [] \<Rightarrow> [] | c # cs \<Rightarrow> if atom_match ic a c then [(cs, snd st)] else [])"
| "ms ic (AnyOf as) st =
     (case fst st of [] \<Rightarrow> []
      | c # cs \<Rightarrow> if list_ex (\<lambda>a. atom_match ic a c) as then [(cs, snd st)] else [])"
| "ms ic (NoneOf as) st =
     (case fst st of [] \<Rightarrow> []
      | c # cs \<Rightarrow> if list_ex (\<lambda>a. atom_match ic a c) as then [] else [(cs, snd st)])"
| "ms ic (Lit l) st =
     (if length l \<le> length (fst st) \<and> list_all2 (ch_eq ic) l (take (length l) (fst st))
      then [(drop (length l) (fst st), snd st)] else [])"
| "ms ic (Seq r1 r2) st = concat (map (ms ic r2) (ms ic r1 st))"
| "ms ic (Alt r1 r2) st = ms ic r1 st @ ms ic r2 st"
| "ms ic (Star r) st =
     concat (map (\<lambda>st'. if length (fst st') < length (fst st) then ms ic (Star r) st' else [])
                 (ms ic r st)) @ [st]"
| "ms ic (Lazy r) st =
     st # concat (map (\<lambda>st'. if length (fst st') < length (fst st) then ms ic (Lazy r) st' else [])
                      (ms ic r st))"
| "ms ic (Group n r) st =
     map (\<lambda>st'. (fst st', (n, take (length (fst st) - length (fst st')) (fst st)) # snd st'))
         (ms ic r st)"
  by pat_completeness auto
termination
  by (relation "measures [\<lambda>(ic, r, st). size r, \<lambda>(ic, r, st). length (fst st)]") auto

declare ms.simps(7,8) [simp del]

text \<open>
  \<^verbatim>\<open>RegExp.prototype.exec\<close> for a pattern that is neither global nor sticky: the match is
  tried at each position from the start of the text, and the first position with a match
  gives the result (the backtracking order's first end state there).
\<close>

fun re_exec :: "bool \<Rightarrow> regex \<Rightarrow> jsstring \<Rightarrow> mstate option" where
  "re_exec ic r [] = (case ms ic r ([], []) of [] \<Rightarrow> None | st # _ \<Rightarrow> Some st)"
| "re_exec ic r (c # cs) =
     (case ms ic r (c # cs, []) of [] \<Rightarrow> re_exec ic r cs | st # _ \<Rightarrow> Some st)"

text \<open>\<^verbatim>\<open>re.test(s)\<close>.\<close>

definition re_test :: "bool \<Rightarrow> regex \<Rightarrow> jsstring \<Rightarrow> bool" where
  "re_test ic r s = (re_exec ic r s \<noteq> None)"

text \<open>
  \<^verbatim>\<open>s.match(re)\<close>: \<open>None\<close> for \<^verbatim>\<open>null\<close>, otherwise the captures of the match; the element
  \<open>n\<close> of the match array is the text group \<open>n\<close> captured last.
\<close>

definition str_match :: "jsstring \<Rightarrow> bool \<Rightarrow> regex \<Rightarrow> captures option" where
  "str_match s ic r = map_option snd (re_exec ic r s)"

definition capture :: "captures \<Rightarrow> nat \<Rightarrow> jsstring option" where
  "capture caps n = map_of caps n"

text \<open>
  The words a pattern can read, as sets: the reference against which the matcher is
  verified. \<open>star L\<close> is the Kleene closure of \<open>L\<close>.
\<close>

inductive_set star :: "jsstring set \<Rightarrow> jsstring set" for L :: "jsstring set" where
  star_empty: "[] \<in> star L"
| star_step: "w \<in> L \<Longrightarrow> v \<in> star L \<Longrightarrow> w @ v \<in> star L"

fun lang :: "bool \<Rightarrow> regex \<Rightarrow> jsstring set" where
  "lang ic (One a) = {[c] | c. atom_match ic a c}"
| "lang ic (AnyOf as) = {[c] | c. list_ex (\<lambda>a. atom_match ic a c) as}"
| "lang ic (NoneOf as) = {[c] | c. \<not> list_ex (\<lambda>a. atom_match ic a c) as}"
| "lang ic (Lit l) = {w. list_all2 (ch_eq ic) l w}"
| "lang ic (Seq r1 r2) = {u @ v | u v. u \<in> lang ic r1 \<and> v \<in> lang ic r2}"
| "lang ic (Alt r1 r2) = lang ic r1 \<union> lang ic r2"
| "lang ic (Star r) = star (lang ic r)"
| "lang ic (Lazy r) = star (lang ic r)"
| "lang ic (Group n r) = lang ic r"


section \<open>The Heuristic Analyzer\<close>

datatype level = Info | Warning | Error

record suggestion =
  level :: level
  text' :: jsstring

subsection \<open>The patterns of \<^verbatim>\<open>analyzeGameHtml\<close>\<close>

text \<open>
  \<^verbatim>\<open>/W1|W2|W3|left\s*button|right\s*button/i\<close>, where \<^verbatim>\<open>W1\<close>, \<^verbatim>\<open>W2\<close>, \<^verbatim>\<open>W3\<close> are the
  three four-character CJK phrases of the source (U+5DE6 U+53F3 U+6309 U+94AE,
  U+70B9 U+51FB U+5DE6 U+53F3 and U+6309 U+4E0B U+5DE6 U+53F3).
\<close>

definition re_mentions_buttons :: regex where
  "re_mentions_buttons =
     Alt (Lit [24038, 21491, 25353, 38062])
    (Alt (Lit [28857, 20987, 24038, 21491])
    (Alt (Lit [25353, 19979, 24038, 21491])
    (Alt (Seq (Lit (asc ''left'')) (Seq (Star (One Space)) (Lit (asc ''button''))))
         (Seq (Lit (asc ''right'')) (Seq (Star (One Space)) (Lit (asc ''button'')))))))"

text \<open>
  \<^verbatim>\<open>/<button[^>]*>[^<]*L|<button[^>]*>[^<]*R/i\<close>, where \<^verbatim>\<open>L\<close> is U+5DE6 and \<^verbatim>\<open>R\<close> is
  U+53F3.
\<close>

definition re_left_right_buttons :: regex where
  "re_left_right_buttons =
     Alt (Seq (Lit (asc ''<button'')) (Seq (Star (NoneOf [Ch 62])) (Seq (Lit (asc ''>''))
            (Seq (Star (NoneOf [Ch 60])) (Lit [24038])))))
         (Seq (Lit (asc ''<button'')) (Seq (Star (NoneOf [Ch 62])) (Seq (Lit (asc ''>''))
            (Seq (Star (NoneOf [Ch 60])) (Lit [21491])))))"

text \<open>\<^verbatim>\<open>/ArrowLeft|ArrowRight/\<close>\<close>

definition re_arrow_keys :: regex where
  "re_arrow_keys = Alt (Lit (asc ''ArrowLeft'')) (Lit (asc ''ArrowRight''))"

text \<open>\<^verbatim>\<open>/getBoundingClientRect\(\)/\<close> and \<^verbatim>\<open>/(left|right|top|bottom)/i\<close>\<close>

definition re_bounding_rect :: regex where
  "re_bounding_rect = Lit (asc ''getBoundingClientRect()'')"

definition re_side :: regex where
  "re_side =
     Group 1 (Alt (Lit (asc ''left'')) (Alt (Lit (asc ''right''))
             (Alt (Lit (asc ''top'')) (Lit (asc ''bottom'')))))"

text \<open>\<^verbatim>\<open>/Math\.abs\([^)]*\)\s*<\s*\d+/\<close>\<close>

definition re_distance :: regex where
  "re_distance =
     Seq (Lit (asc ''Math.abs('')) (Seq (Star (NoneOf [Ch 41])) (Seq (Lit (asc '')''))
    (Seq (Star (One Space)) (Seq (Lit (asc ''<'')) (Seq (Star (One Space)) (Plus (One Digit)))))))"

text \<open>\<^verbatim>\<open>/body\s*\{[^}]*?(display\s*:\s*flex|overflow\s*:\s*hidden)/i\<close>\<close>

definition re_body_layout :: regex where
  "re_body_layout =
     Seq (Lit (asc ''body'')) (Seq (Star (One Space)) (Seq (Lit (asc ''{''))
    (Seq (Lazy (NoneOf [Ch 125]))
      (Group 1
        (Alt (Seq (Lit (asc ''display'')) (Seq (Star (One Space)) (Seq (Lit (asc '':''))
                (Seq (Star (One Space)) (Lit (asc ''flex''))))))
             (Seq (Lit (asc ''overflow'')) (Seq (Star (One Space)) (Seq (Lit (asc '':''))
                (Seq (Star (One Space)) (Lit (asc ''hidden'')))))))))))"

text \<open>\<^verbatim>\<open>/(class=\"game-area\")|(id=\"game-container\")/i\<close>\<close>

definition re_game_area :: regex where
  \<open>re_game_area =
     Alt (Group 1 (Lit (asc ''class="game-area"''))) (Group 2 (Lit (asc ''id="game-container"'')))\<close>

text \<open>\<^verbatim>\<open>/charset=.*utf-8/i\<close>\<close>

definition re_charset :: regex where
  "re_charset = Seq (Lit (asc ''charset='')) (Seq (Star (One Dot)) (Lit (asc ''utf-8'')))"

subsection \<open>The texts of the six suggestions\<close>

definition text_buttons :: jsstring where
  \<open>text_buttons =
     [35828, 26126, 25552, 21040, 8220, 24038, 21491, 25353, 38062, 8221, 65292, 20294, 39029, 38754, 26410, 26816, 27979, 21040, 23545, 24212, 30340, 21487, 28857, 20987, 25353, 38062, 12290, 24314, 35758, 34917, 20805, 21487, 35270, 21270, 30340, 24038] @
     asc ''/'' @
     [21491, 25353, 38062, 65292, 24182, 20445, 30041, 38190, 30424, 26041, 21521, 38190, 25903, 25345, 12290]\<close>

definition text_arrow_keys :: jsstring where
  \<open>text_arrow_keys =
     [26410, 26816, 27979, 21040, 38190, 30424, 26041, 21521, 38190] @
     asc ''(ArrowLeft/ArrowRight)'' @
     [20107, 20214, 65292, 24314, 35758, 21516, 26102, 25903, 25345, 38190, 30424, 25805, 20316, 20197, 25552, 21319, 21487, 29609, 24615, 12290]\<close>

definition text_collision :: jsstring where
  \<open>text_collision =
     [30896, 25758, 26816, 27979, 30097, 20284, 20351, 29992, 22266, 23450, 36317, 31163, 38408, 20540, 12290, 24314, 35758, 25913, 20026, 36724, 23545, 40784, 30697, 24418, 30456, 20132, 65288] @
     asc ''AABB'' @
     [65289, 20197, 33719, 24471, 26356, 31283, 23450, 30340, 21028, 23450, 12290]\<close>

definition text_body_layout :: jsstring where
  \<open>text_body_layout =
     [26816, 27979, 21040, 23545] @
     asc '' <body> '' @
     [35774, 32622, 20102, 20840, 23616, 24067, 23616, 65288] @
     asc ''flex/overflow'' @
     [65289, 12290, 24314, 35758, 23558, 24067, 23616, 38480, 21046, 22312, 28216, 25103, 23481, 22120, 20869, 65288, 22914] @
     asc '' .game-area/#game-container'' @
     [65289, 65292, 36991, 20813, 24433, 21709, 23487, 20027, 39029, 38754, 12290]\<close>

definition text_game_area :: jsstring where
  \<open>text_game_area =
     [26410, 26816, 27979, 21040, 26631, 20934, 30340, 28216, 25103, 23481, 22120] @
     asc ''(.game-area '' @
     [25110] @
     asc '' #game-container)'' @
     [12290, 24314, 35758, 28155, 21152, 32479, 19968, 23481, 22120, 65292, 20415, 20110, 33258, 36866, 24212, 19982, 26679, 24335, 38548, 31163, 12290]\<close>

definition text_charset :: jsstring where
  \<open>text_charset =
     [26410, 26816, 27979, 21040] @
     asc '' UTF-8 '' @
     [32534, 30721, 22768, 26126, 65292, 24314, 35758, 22312] @
     asc '' <head> '' @
     [20013, 21152, 20837] @
     asc '' <meta charset="UTF-8">'' @
     [12290]\<close>

subsection \<open>\<^verbatim>\<open>analyzeGameHtml\<close>\<close>

text \<open>The tests of the function, under the names of its local constants.\<close>

definition mentionsButtons :: "jsstring \<Rightarrow> bool" where
  "mentionsButtons html = re_test True re_mentions_buttons html"

definition hasLeftRightButtons :: "jsstring \<Rightarrow> bool" where
  "hasLeftRightButtons html = re_test True re_left_right_buttons html"

definition hasArrowKeys :: "jsstring \<Rightarrow> bool" where
  "hasArrowKeys html = re_test False re_arrow_keys html"

definition usesAABB :: "jsstring \<Rightarrow> bool" where
  "usesAABB html = (re_test False re_bounding_rect html \<and> re_test True re_side html)"

definition usesDistance :: "jsstring \<Rightarrow> bool" where
  "usesDistance html = re_test False re_distance html"

definition setsBodyLayout :: "jsstring \<Rightarrow> bool" where
  "setsBodyLayout html = re_test True re_body_layout html"

definition hasGameArea :: "jsstring \<Rightarrow> bool" where
  "hasGameArea html = re_test True re_game_area html"

text \<open>
  The array \<^verbatim>\<open>s\<close> is threaded through the six rules; \<open>push\<close> appends at the end. (The
  constant \<^verbatim>\<open>lower\<close> of the source is computed and never read.)
\<close>

definition push :: "suggestion list \<Rightarrow> level \<Rightarrow> jsstring \<Rightarrow> suggestion list" where
  "push s l t = s @ [\<lparr>level = l, text' = t\<rparr>]"

definition analyzeGameHtml :: "jsstring \<Rightarrow> suggestion list" where
  "analyzeGameHtml html =
     (let s0 = [];
          s1 = (if mentionsButtons html \<and> \<not> hasLeftRightButtons html
                then push s0 Warning text_buttons else s0);
          s2 = (if \<not> hasArrowKeys html then push s1 Info text_arrow_keys else s1);
          s3 = (if \<not> usesAABB html \<and> usesDistance html
                then push s2 Warning text_collision else s2);
          s4 = (if setsBodyLayout html then push s3 Info text_body_layout else s3);
          s5 = (if \<not> hasGameArea html then push s4 Info text_game_area else s4);
          s6 = (if \<not> re_test True re_charset html then push s5 Warning text_charset else s5)
      in s6)"

subsection \<open>Reference notions for the analyzer's properties\<close>

text \<open>
  The six rules as a table: the condition under which a rule fires, and the suggestion it
  contributes.
\<close>

definition rule_table :: "((jsstring \<Rightarrow> bool) \<times> suggestion) list" where
  "rule_table =
     [(\<lambda>h. mentionsButtons h \<and> \<not> hasLeftRightButtons h, \<lparr>level = Warning, text' = text_buttons\<rparr>),
      (\<lambda>h. \<not> hasArrowKeys h, \<lparr>level = Info, text' = text_arrow_keys\<rparr>),
      (\<lambda>h. \<not> usesAABB h \<and> usesDistance h, \<lparr>level = Warning, text' = text_collision\<rparr>),
      (\<lambda>h. setsBodyLayout h, \<lparr>level = Info, text' = text_body_layout\<rparr>),
      (\<lambda>h. \<not> hasGameArea h, \<lparr>level = Info, text' = text_game_area\<rparr>),
      (\<lambda>h. \<not> re_test True re_charset h, \<lparr>level = Warning, text' = text_charset\<rparr>)]"

text \<open>
  What the sixth rule looks for, in words: somewhere in the text, \<^verbatim>\<open>charset=\<close> is followed,
  before the line ends, by \<^verbatim>\<open>utf-8\<close>, both compared without regard to case.
\<close>

definition charset_utf8_on_one_line :: "jsstring \<Rightarrow> bool" where
  "charset_utf8_on_one_line html =
     (\<exists>a x m y b. html = a @ x @ m @ y @ b
        \<and> list_all2 (ch_eq True) (asc ''charset='') x
        \<and> (\<forall>c\<in>set m. \<not> is_line_terminator c)
        \<and> list_all2 (ch_eq True) (asc ''utf-8'') y)"


section \<open>JavaScript values\<close>

text \<open>
  Numbers: the rationals stand for the finite doubles (rounding and the negative zero are
  not modelled), with the two infinities and NaN.
\<close>

datatype number = NaN | Fin rat | PosInf | NegInf

text \<open>
  The values a message can carry. A message is a structured clone, so it holds no
  function. Numbers are restricted to integers here; arrays and the other built-in object
  kinds are left out. An object is the list of its own properties.
\<close>

datatype jsval =
    JUndefined
  | JNull
  | JBool bool
  | JNum int
  | JStr jsstring
  | JObj "(jsstring \<times> jsval) list"

datatype error = TypeError

fun truthy :: "jsval \<Rightarrow> bool" where
  "truthy JUndefined = False"
| "truthy JNull = False"
| "truthy (JBool b) = b"
| "truthy (JNum n) = (n \<noteq> 0)"
| "truthy (JStr s) = (s \<noteq> [])"
| "truthy (JObj fs) = True"

text \<open>
  \<open>js_get v k\<close> is the property read \<^verbatim>\<open>v.k\<close>: a TypeError on \<^verbatim>\<open>undefined\<close> and \<^verbatim>\<open>null\<close>,
  the own property of an object, and \<^verbatim>\<open>undefined\<close> where there is none. It is used for
  the keys \<^verbatim>\<open>type\<close>, \<^verbatim>\<open>message\<close>, \<^verbatim>\<open>status\<close>, \<^verbatim>\<open>data\<close> and \<^verbatim>\<open>score\<close> only, which no
  prototype of a primitive or of a plain object defines. \<open>opt_get v k\<close> is \<^verbatim>\<open>v?.k\<close>.
\<close>

fun js_get :: "jsval \<Rightarrow> jsstring \<Rightarrow> error + jsval" where
  "js_get JUndefined k = Inl TypeError"
| "js_get JNull k = Inl TypeError"
| "js_get (JObj fs) k = (case map_of fs k of Some v \<Rightarrow> Inr v | None \<Rightarrow> Inr JUndefined)"
| "js_get v k = Inr JUndefined"

definition opt_get :: "jsval \<Rightarrow> jsstring \<Rightarrow> jsval" where
  "opt_get v k = (case js_get v k of Inl e \<Rightarrow> JUndefined | Inr x \<Rightarrow> x)"

text \<open>The decimal text of an integer (as \<^verbatim>\<open>toString\<close> gives it below \<open>10\<^sup>2\<^sup>1\<close>).\<close>

fun nat_text :: "nat \<Rightarrow> jsstring" where
  "nat_text n = (if n < 10 then [48 + n] else nat_text (n div 10) @ [48 + n mod 10])"

definition int_text :: "int \<Rightarrow> jsstring" where
  "int_text i = (if i < 0 then 45 # nat_text (nat (- i)) else nat_text (nat i))"

text \<open>
  The method call \<^verbatim>\<open>v.toString()\<close>. An object that has an own property \<^verbatim>\<open>toString\<close> hides
  the inherited method, and since a message holds no function the call fails with a
  TypeError.
\<close>

fun js_toString :: "jsval \<Rightarrow> error + jsstring" where
  "js_toString JUndefined = Inl TypeError"
| "js_toString JNull = Inl TypeError"
| "js_toString (JBool b) = Inr (if b then asc ''true'' else asc ''false'')"
| "js_toString (JNum n) = Inr (int_text n)"
| "js_toString (JStr s) = Inr s"
| "js_toString (JObj fs) =
     (case map_of fs (asc ''toString'') of
        Some v \<Rightarrow> Inl TypeError
      | None \<Rightarrow> Inr (asc ''[object Object]''))"

subsection \<open>\<^verbatim>\<open>parseInt\<close> with one argument\<close>

definition digit_value :: "nat \<Rightarrow> nat option" where
  "digit_value c =
     (if 48 \<le> c \<and> c \<le> 57 then Some (c - 48)
      else if 97 \<le> c \<and> c \<le> 122 then Some (c - 87)
      else if 65 \<le> c \<and> c \<le> 90 then Some (c - 55)
      else None)"

definition is_radix_digit :: "nat \<Rightarrow> nat \<Rightarrow> bool" where
  "is_radix_digit R c = (case digit_value c of Some d \<Rightarrow> d < R | None \<Rightarrow> False)"

definition radix_value :: "nat \<Rightarrow> jsstring \<Rightarrow> nat" where
  "radix_value R ds =
     foldl (\<lambda>a c. a * R + (case digit_value c of Some d \<Rightarrow> d | None \<Rightarrow> 0)) 0 ds"

text \<open>
  The argument is \<open>None\<close> for \<^verbatim>\<open>undefined\<close>, whose text holds no digit. Leading white space
  is skipped, a sign is read, the prefix \<^verbatim>\<open>0x\<close> selects radix 16, and the longest run of
  digits is the value; no digit gives NaN. (The language rounds the value to a double;
  it is exact below \<open>2\<^sup>5\<^sup>3\<close>.)
\<close>

definition parseInt :: "jsstring option \<Rightarrow> number" where
  "parseInt arg =
     (case arg of
        None \<Rightarrow> NaN
      | Some s \<Rightarrow>
         (let t = dropWhile is_space s;
              negative = (case t of c # cs \<Rightarrow> c = 45 | [] \<Rightarrow> False);
              t1 = (case t of c # cs \<Rightarrow> if c = 43 \<or> c = 45 then cs else t | [] \<Rightarrow> t);
              hex = (case t1 of c # d # cs \<Rightarrow> c = 48 \<and> (d = 120 \<or> d = 88) | _ \<Rightarrow> False);
              R = (if hex then 16 else 10);
              t2 = (if hex then drop 2 t1 else t1);
              z = takeWhile (is_radix_digit R) t2
          in if z = [] then NaN
             else Fin (of_int ((if negative then - 1 else 1) * int (radix_value R z)))))"

section \<open>The Score Parser\<close>

record ScoreState =
  correct :: number
  wrong :: number
  progress :: number

text \<open>
  \<^verbatim>\<open>/L[:\s]*(\d+)/i\<close> for the three labels \<^verbatim>\<open>L\<close>: U+6B63 U+786E (correct), U+9519 U+8BEF
  (wrong) and U+8FDB U+5EA6 (progress).
\<close>

definition re_correct :: regex where
  "re_correct =
     Seq (Lit [27491, 30830]) (Seq (Star (AnyOf [Ch 58, Space])) (Group 1 (Plus (One Digit))))"

definition re_wrong :: regex where
  "re_wrong =
     Seq (Lit [38169, 35823]) (Seq (Star (AnyOf [Ch 58, Space])) (Group 1 (Plus (One Digit))))"

definition re_progress :: regex where
  "re_progress =
     Seq (Lit [36827, 24230]) (Seq (Star (AnyOf [Ch 58, Space])) (Group 1 (Plus (One Digit))))"

text \<open>
  \<^verbatim>\<open>handleScoreUpdate\<close>: \<open>gameScore\<close> is the state the function's closure holds, \<open>data\<close> the
  payload. The result is the exception thrown, if any, and the state afterwards: the state
  given to \<^verbatim>\<open>setGameScore\<close>, or \<open>gameScore\<close> when \<^verbatim>\<open>setGameScore\<close> is not reached.
\<close>

definition handleScoreUpdate :: "ScoreState \<Rightarrow> jsval \<Rightarrow> error option \<times> ScoreState" where
  "handleScoreUpdate gameScore data =
     (if truthy (opt_get data (asc ''score'')) then
        (case js_get data (asc ''score'') of
           Inl e \<Rightarrow> (Some e, gameScore)
         | Inr score \<Rightarrow>
            (case js_toString score of
               Inl e \<Rightarrow> (Some e, gameScore)
             | Inr scoreText \<Rightarrow>
                (let correctMatch = str_match scoreText True re_correct;
                     wrongMatch = str_match scoreText True re_wrong;
                     progressMatch = str_match scoreText True re_progress
                 in (None,
                     \<lparr>correct = (case correctMatch of
                                   Some m \<Rightarrow> parseInt (capture m 1)
                                 | None \<Rightarrow> correct gameScore),
                      wrong = (case wrongMatch of
                                 Some m \<Rightarrow> parseInt (capture m 1)
                               | None \<Rightarrow> wrong gameScore),
                      progress = (case progressMatch of
                                    Some m \<Rightarrow> parseInt (capture m 1)
                                  | None \<Rightarrow> progress gameScore)\<rparr>))))
      else (None, gameScore))"

subsection \<open>Reference notions for the parser's properties\<close>

text \<open>The state of \<^verbatim>\<open>useState({ correct: 0, wrong: 0, progress: 0 })\<close>.\<close>

definition initial_score :: ScoreState where
  "initial_score = \<lparr>correct = Fin 0, wrong = Fin 0, progress = Fin 0\<rparr>"

text \<open>The state after a sequence of score updates.\<close>

definition score_after :: "ScoreState \<Rightarrow> jsval list \<Rightarrow> ScoreState" where
  "score_after s payloads = foldl (\<lambda>s d. snd (handleScoreUpdate s d)) s payloads"

definition nonneg_integer :: "number \<Rightarrow> bool" where
  "nonneg_integer x = (\<exists>k::nat. x = Fin (of_nat k))"

definition decimal :: "jsstring \<Rightarrow> nat" where
  "decimal ds = foldl (\<lambda>a c. 10 * a + (c - 48)) 0 ds"

text \<open>
  A labeled number at the start of a text: the label, any run of colons and white space,
  and a non-empty run of digits.
\<close>

definition labeled_number_at :: "jsstring \<Rightarrow> jsstring \<Rightarrow> bool" where
  "labeled_number_at label s =
     (\<exists>seps ds rest. s = label @ seps @ ds @ rest
        \<and> (\<forall>c\<in>set seps. c = 58 \<or> is_space c)
        \<and> ds \<noteq> [] \<and> (\<forall>c\<in>set ds. is_digit c))"

definition has_labeled_number :: "jsstring \<Rightarrow> jsstring \<Rightarrow> bool" where
  "has_labeled_number label text = (\<exists>j\<le>length text. labeled_number_at label (drop j text))"

text \<open>
  \<open>first_labeled_value label text n\<close>: the first labeled number of the text, read to the
  end of its run of digits, has the decimal value \<open>n\<close>.
\<close>

definition first_labeled_value :: "jsstring \<Rightarrow> jsstring \<Rightarrow> nat \<Rightarrow> bool" where
  "first_labeled_value label text n =
     (\<exists>pre seps ds rest. text = pre @ label @ seps @ ds @ rest
        \<and> (\<forall>j<length pre. \<not> labeled_number_at label (drop j text))
        \<and> (\<forall>c\<in>set seps. c = 58 \<or> is_space c)
        \<and> ds \<noteq> [] \<and> (\<forall>c\<in>set ds. is_digit c)
        \<and> (rest = [] \<or> \<not> is_digit (hd rest))
        \<and> n = decimal ds)"

text \<open>The three labels.\<close>

definition label_correct :: jsstring where
  "label_correct = [27491, 30830]"

definition label_wrong :: jsstring where
  "label_wrong = [38169, 35823]"

definition label_progress :: jsstring where
  "label_progress = [36827, 24230]"

text \<open>
  The score text a payload yields, if any: the payload has a truthy \<^verbatim>\<open>score\<close> whose
  \<^verbatim>\<open>toString\<close> returns.
\<close>

definition score_text :: "jsval \<Rightarrow> jsstring option" where
  "score_text data =
     (case js_get data (asc ''score'') of
        Inl e \<Rightarrow> None
      | Inr v \<Rightarrow> if truthy v then (case js_toString v of Inl e \<Rightarrow> None | Inr t \<Rightarrow> Some t)
                 else None)"

definition score_invariant :: "ScoreState \<Rightarrow> bool" where
  "score_invariant s =
     (nonneg_integer (correct s) \<and> nonneg_integer (wrong s) \<and> nonneg_integer (progress s))"


section \<open>The Message Protocol Bridge\<close>

text \<open>
  The two notification calls of the handler, \<^verbatim>\<open>message.info\<close> and \<^verbatim>\<open>message.warning\<close>,
  with their argument.
\<close>

datatype notice = message_info jsval | message_warning jsval

text \<open>
  \<^verbatim>\<open>handleMessage\<close> on the message \<^verbatim>\<open>event.data\<close>: the exception thrown, if any, the
  notifications shown, and the score state afterwards.
\<close>

definition handleMessage :: "ScoreState \<Rightarrow> jsval \<Rightarrow> error option \<times> notice list \<times> ScoreState" where
  "handleMessage gameScore event_data =
     (if opt_get event_data (asc ''type'') = JStr (asc ''game-alert'') then
        (case js_get event_data (asc ''message'') of
           Inl e \<Rightarrow> (Some e, [], gameScore)
         | Inr m \<Rightarrow> (None, [message_info m], gameScore))
      else if opt_get event_data (asc ''type'') = JStr (asc ''game-confirm'') then
        (case js_get event_data (asc ''message'') of
           Inl e \<Rightarrow> (Some e, [], gameScore)
         | Inr m \<Rightarrow> (None, [message_warning m], gameScore))
      else if opt_get event_data (asc ''type'') = JStr (asc ''game-status'') then
        (case js_get event_data (asc ''status'') of
           Inl e \<Rightarrow> (Some e, [], gameScore)
         | Inr status \<Rightarrow>
            if status = JStr (asc ''score-update'') then
              (case js_get event_data (asc ''data'') of
                 Inl e \<Rightarrow> (Some e, [], gameScore)
               | Inr data \<Rightarrow>
                  (case handleScoreUpdate gameScore data of (thrown, s) \<Rightarrow> (thrown, [], s)))
            else (None, [], gameScore))
      else (None, [], gameScore))"


section \<open>Properties of the string search\<close>

lemma find_first_Some_split:
  "find_first pat s = Some (p, f) \<Longrightarrow> s = p @ pat @ f"
proof (induction s arbitrary: p f)
  case Nil
  then show ?case by (simp split: if_splits)
next
  case (Cons c cs)
  show ?case
  proof (cases "prefix pat (c # cs)")
    case True
    then obtain r where r: "c # cs = pat @ r" by (auto simp: prefix_def)
    from True Cons.prems have "p = []" "f = drop (length pat) (c # cs)" by auto
    with r show ?thesis by simp
  next
    case False
    with Cons.prems obtain p' where "find_first pat cs = Some (p', f)" and "p = c # p'"
      by auto
    with Cons.IH show ?thesis by simp
  qed
qed

lemma find_first_Some_first:
  "find_first pat s = Some (p, f) \<Longrightarrow> i < length p \<Longrightarrow> \<not> prefix pat (drop i s)"
proof (induction s arbitrary: p f i)
  case Nil
  then show ?case by (simp split: if_splits)
next
  case (Cons c cs)
  show ?case
  proof (cases "prefix pat (c # cs)")
    case True
    with Cons.prems show ?thesis by auto
  next
    case False
    with Cons.prems obtain p' where p': "find_first pat cs = Some (p', f)" "p = c # p'"
      by auto
    show ?thesis
    proof (cases i)
      case 0
      with False show ?thesis by simp
    next
      case (Suc j)
      with Cons.prems p' have "j < length p'" by simp
      with Cons.IH p' have "\<not> prefix pat (drop j cs)" by blast
      with Suc show ?thesis by simp
    qed
  qed
qed

lemma find_first_None_iff: "find_first pat s = None \<longleftrightarrow> \<not> sublist pat s"
proof (induction s)
  case Nil
  then show ?case by simp
next
  case (Cons c cs)
  then show ?case by (auto simp: sublist_Cons_right)
qed

lemma js_includes_iff: "js_includes s pat \<longleftrightarrow> sublist pat s"
  by (simp add: js_includes_def find_first_None_iff)

lemma GetSubstitution_literal:
  "36 \<notin> set t \<Longrightarrow> GetSubstitution m p f t = t"
  by (induction m p f t rule: GetSubstitution.induct) auto

section \<open>Facts about the bundle text\<close>

text \<open>The bundle holds no dollar sign, so as a replacement template it stands for itself.\<close>

lemma dollar_asc: "36 \<in> set (asc s) \<longleftrightarrow> CHR ''$'' \<in> set s"
proof -
  have "(36::nat) = of_char (CHR ''$'')" by simp
  then show ?thesis unfolding asc_def by (auto simp del: of_char_Char)
qed

lemma set_js_lines:
  "set (js_lines ls) = (if ls = [] then {} else insert 10 (\<Union> (set ` set ls)))"
  unfolding js_lines_def by auto

lemma enh_dialogs_dollar_free: "36 \<notin> set enh_dialogs"
  unfolding enh_dialogs_def by (simp add: set_js_lines dollar_asc)
lemma enh_status_dollar_free: "36 \<notin> set enh_status"
  unfolding enh_status_def by (simp add: set_js_lines dollar_asc)
lemma enh_pick_root_dollar_free: "36 \<notin> set enh_pick_root"
  unfolding enh_pick_root_def by (simp add: set_js_lines dollar_asc)
lemma enh_resize_dollar_free: "36 \<notin> set enh_resize"
  unfolding enh_resize_def by (simp add: set_js_lines dollar_asc)
lemma enh_wiring_dollar_free: "36 \<notin> set enh_wiring"
  unfolding enh_wiring_def by (simp add: set_js_lines dollar_asc)
lemma enh_style_dollar_free: "36 \<notin> set enh_style"
  unfolding enh_style_def by (simp add: set_js_lines dollar_asc)

lemma enhancements_dollar_free: "36 \<notin> set enhancements"
  unfolding enhancements_def
  by (simp add: enh_dialogs_dollar_free enh_status_dollar_free enh_pick_root_dollar_free
      enh_resize_dollar_free enh_wiring_dollar_free enh_style_dollar_free)

lemma markers_dollar_free:
  "36 \<notin> set head_close" "36 \<notin> set head_open" "36 \<notin> set body_open"
  by (simp_all add: head_close_def head_open_def body_open_def dollar_asc)

lemma js_replace_literal:
  "36 \<notin> set t \<Longrightarrow>
   js_replace s pat t = (case find_first pat s of None \<Rightarrow> s | Some (p, f) \<Rightarrow> p @ t @ f)"
  by (simp add: js_replace_def GetSubstitution_literal split: option.splits)

lemma inject_cases:
  "injectGameEnhancements html =
    (case find_first head_close html of
       Some (p, f) \<Rightarrow> p @ enhancements @ head_close @ f
     | None \<Rightarrow>
        (case find_first body_open html of
           Some (p, f) \<Rightarrow> p @ head_open @ enhancements @ head_close @ body_open @ f
         | None \<Rightarrow> enhancements @ html))"
  by (simp add: injectGameEnhancements_def js_includes_def js_replace_literal
      enhancements_dollar_free markers_dollar_free split: option.splits)

section \<open>Properties of the Enhancement Injector\<close>

text \<open>
  Claim C1. The injector follows the three-tier fallback: when the input contains
  \<^verbatim>\<open></head>\<close>, the bundle is inserted immediately before its first occurrence; otherwise,
  when the input contains \<^verbatim>\<open><body>\<close>, a head element wrapping the bundle is inserted
  immediately before its first occurrence; otherwise the output is the bundle followed by
  the input. In each tier there is one insertion point and the text before and after it is
  the input's.
\<close>

theorem inject_three_tier:
  "(sublist head_close html \<longrightarrow>
      (\<exists>pre post. html = pre @ head_close @ post
         \<and> (\<forall>i<length pre. \<not> prefix head_close (drop i html))
         \<and> injectGameEnhancements html = pre @ enhancements @ head_close @ post))
   \<and> (\<not> sublist head_close html \<and> sublist body_open html \<longrightarrow>
      (\<exists>pre post. html = pre @ body_open @ post
         \<and> (\<forall>i<length pre. \<not> prefix body_open (drop i html))
         \<and> injectGameEnhancements html
             = pre @ head_open @ enhancements @ head_close @ body_open @ post))
   \<and> (\<not> sublist head_close html \<and> \<not> sublist body_open html \<longrightarrow>
      injectGameEnhancements html = enhancements @ html)"
proof (intro conjI impI)
  assume "sublist head_close html"
  then obtain p f where pf: "find_first head_close html = Some (p, f)"
    using find_first_None_iff [of head_close html] by (cases "find_first head_close html") auto
  have "html = p @ head_close @ f" using pf by (rule find_first_Some_split)
  moreover have "\<forall>i<length p. \<not> prefix head_close (drop i html)"
    using pf find_first_Some_first by blast
  moreover have "injectGameEnhancements html = p @ enhancements @ head_close @ f"
    using pf by (simp add: inject_cases)
  ultimately show "\<exists>pre post. html = pre @ head_close @ post
         \<and> (\<forall>i<length pre. \<not> prefix head_close (drop i html))
         \<and> injectGameEnhancements html = pre @ enhancements @ head_close @ post"
    by blast
next
  assume a: "\<not> sublist head_close html \<and> sublist body_open html"
  then have none: "find_first head_close html = None" by (simp add: find_first_None_iff)
  from a obtain p f where pf: "find_first body_open html = Some (p, f)"
    using find_first_None_iff [of body_open html] by (cases "find_first body_open html") auto
  have "html = p @ body_open @ f" using pf by (rule find_first_Some_split)
  moreover have "\<forall>i<length p. \<not> prefix body_open (drop i html)"
    using pf find_first_Some_first by blast
  moreover have "injectGameEnhancements html
      = p @ head_open @ enhancements @ head_close @ body_open @ f"
    using pf none by (simp add: inject_cases)
  ultimately show "\<exists>pre post. html = pre @ body_open @ post
         \<and> (\<forall>i<length pre. \<not> prefix body_open (drop i html))
         \<and> injectGameEnhancements html
             = pre @ head_open @ enhancements @ head_close @ body_open @ post"
    by blast
next
  assume "\<not> sublist head_close html \<and> \<not> sublist body_open html"
  then show "injectGameEnhancements html = enhancements @ html"
    by (simp add: inject_cases find_first_None_iff [symmetric])
qed

lemma sublist_eval: "sublist pat s \<longleftrightarrow> find_first pat s \<noteq> None"
  by (simp add: find_first_None_iff)

theorem inject_three_tier_witness:
  "sublist head_close (asc ''<html><head><title>t</title></head><body>x</body></html>'')
   \<and> injectGameEnhancements (asc ''<html><head><title>t</title></head><body>x</body></html>'')
       = asc ''<html><head><title>t</title>'' @ enhancements
           @ asc ''</head><body>x</body></html>''
   \<and> \<not> sublist head_close (asc ''<html><body><p>x</p></body></html>'')
   \<and> sublist body_open (asc ''<html><body><p>x</p></body></html>'')
   \<and> injectGameEnhancements (asc ''<html><body><p>x</p></body></html>'')
       = asc ''<html><head>'' @ enhancements @ asc ''</head><body><p>x</p></body></html>''
   \<and> \<not> sublist head_close (asc ''<p>x</p>'') \<and> \<not> sublist body_open (asc ''<p>x</p>'')
   \<and> injectGameEnhancements (asc ''<p>x</p>'') = enhancements @ asc ''<p>x</p>''"
  using inject_three_tier [of "asc ''<html><head><title>t</title></head><body>x</body></html>''"]
    inject_three_tier [of "asc ''<html><body><p>x</p></body></html>''"]
    inject_three_tier [of "asc ''<p>x</p>''"]
  by (simp add: sublist_eval inject_cases head_close_def head_open_def body_open_def asc_def)

text \<open>
  Facts for counting the bundle in the output: the character U+5FFD occurs exactly once in
  the bundle (in the comment of the \<^verbatim>\<open>catch\<close> block), and every character of the two
  head tags occurs there more than once.
\<close>

lemma asc_mem: "of_char ch \<in> set (asc s) \<longleftrightarrow> ch \<in> set s"
  unfolding asc_def by (auto simp del: of_char_Char)

lemma asc_subset: "set (asc s) \<subseteq> A \<longleftrightarrow> (\<forall>ch\<in>set s. of_char ch \<in> A)"
  unfolding asc_def by auto

lemma tags_in_wiring: "set head_close \<subseteq> set enh_wiring"
  unfolding head_close_def asc_subset enh_wiring_def
  by (simp add: set_js_lines asc_mem del: of_char_Char)

lemma tags_in_style: "set head_close \<subseteq> set enh_style"
  unfolding head_close_def asc_subset enh_style_def
  by (simp add: set_js_lines asc_mem del: of_char_Char)

lemma count_js_lines:
  "c \<noteq> 10 \<Longrightarrow> count_list (js_lines ls) c = sum_list (map (\<lambda>l. count_list l c) ls)"
  unfolding js_lines_def by (induction ls) auto

lemma of_char_bound: "(of_char ch :: nat) < 256"
proof -
  have "(of_char ch :: nat) mod 256 = of_char ch" by (rule of_char_mod_256)
  then show ?thesis by (metis mod_less_divisor zero_less_numeral)
qed

lemma count_asc_high: "256 \<le> c \<Longrightarrow> count_list (asc s) c = 0"
proof -
  assume c: "256 \<le> c"
  have "c \<notin> set (asc s)"
  proof
    assume "c \<in> set (asc s)"
    then obtain ch where "c = of_char ch" unfolding asc_def by auto
    with of_char_bound [of ch] c show False by linarith
  qed
  then show ?thesis by (simp add: count_notin)
qed

lemma unique_char: "count_list enhancements 24573 = 1"
  unfolding enhancements_def enh_dialogs_def enh_status_def enh_pick_root_def enh_resize_def
    enh_wiring_def enh_style_def
  by (simp add: count_js_lines count_asc_high)

lemma filter_upt_single:
  assumes "k < n" and "\<And>i. i < n \<Longrightarrow> P i \<longleftrightarrow> i = k"
  shows "filter P [0..<n] = [k]"
proof -
  have "[0..<n] = [0..<k] @ [k..<n]"
    using assms(1) upt_add_eq_append [of 0 k "n - k"] by simp
  moreover have "[k..<n] = k # [Suc k..<n]"
    using assms(1) by (simp add: upt_conv_Cons)
  ultimately have split: "[0..<n] = [0..<k] @ k # [Suc k..<n]" by simp
  have "filter P [0..<k] = []" using assms by (auto simp: filter_empty_conv)
  moreover have "filter P [Suc k..<n] = []" using assms by (auto simp: filter_empty_conv)
  moreover have "P k" using assms by simp
  ultimately show ?thesis by (simp add: split)
qed

lemma first_index_append:
  assumes "c \<notin> set X" and "c \<in> set E"
  shows "length (takeWhile (\<lambda>x. x \<noteq> c) (X @ E @ Y))
         = length X + length (takeWhile (\<lambda>x. x \<noteq> c) E)"
proof -
  have "takeWhile (\<lambda>x. x \<noteq> c) (X @ E @ Y) = X @ takeWhile (\<lambda>x. x \<noteq> c) (E @ Y)"
    using assms(1) by (intro takeWhile_append2) auto
  moreover have "takeWhile (\<lambda>x. x \<noteq> c) (E @ Y) = takeWhile (\<lambda>x. x \<noteq> c) E"
    using assms(2) by (intro takeWhile_append1 [of c]) auto
  ultimately show ?thesis by simp
qed

lemma unique_occurrence:
  assumes one: "count_list E c = 1" and A: "c \<notin> set A" and B: "c \<notin> set B"
  shows "occurrences E (A @ E @ B) = [length A]"
proof -
  let ?s = "A @ E @ B"
  have cE: "c \<in> set E" using one by (metis count_list_0_iff zero_neq_one)
  have only: "prefix E (drop i ?s) \<longleftrightarrow> i = length A" if "i < Suc (length ?s)" for i
  proof
    assume "prefix E (drop i ?s)"
    then obtain Y where Y: "drop i ?s = E @ Y" by (auto simp: prefix_def)
    define X where "X = take i ?s"
    have s: "?s = X @ E @ Y" unfolding X_def using Y by (metis append_take_drop_id)
    have lenX: "length X = i" unfolding X_def using that by simp
    have "count_list ?s c = 1" using one A B by (simp add: count_notin)
    then have "count_list X c = 0" using one by (simp add: s)
    then have "c \<notin> set X" by (simp add: count_list_0_iff)
    then have "length (takeWhile (\<lambda>x. x \<noteq> c) (X @ E @ Y))
         = length X + length (takeWhile (\<lambda>x. x \<noteq> c) E)"
      using cE by (rule first_index_append)
    moreover have "length (takeWhile (\<lambda>x. x \<noteq> c) ?s)
         = length A + length (takeWhile (\<lambda>x. x \<noteq> c) E)"
      using A cE by (rule first_index_append)
    ultimately show "i = length A" using s lenX by simp
  next
    assume "i = length A"
    then show "prefix E (drop i ?s)" by simp
  qed
  show ?thesis unfolding occurrences_def
    by (rule filter_upt_single) (use only in auto)
qed

lemma occurrence_at_insertion: "length A \<in> set (occurrences E (A @ E @ B))"
  by (simp add: occurrences_def)

lemma find_first_at_start: "find_first pat (pat @ r) = Some ([], r)"
proof (cases "pat @ r")
  case Nil
  then show ?thesis by simp
next
  case (Cons a l)
  then have "prefix pat (a # l)" by (metis prefixI)
  then have "find_first pat (a # l) = Some ([], drop (length pat) (a # l))" by simp
  moreover have "drop (length pat) (a # l) = r" using Cons [symmetric] by simp
  ultimately show ?thesis using Cons by simp
qed

lemma two_occurrences:
  assumes "E \<noteq> []"
  shows "2 \<le> length (occurrences E (E @ M @ E))"
proof -
  let ?s = "E @ M @ E"
  have d: "distinct (occurrences E ?s)" by (simp add: occurrences_def)
  have "0 \<in> set (occurrences E ?s)" by (simp add: occurrences_def)
  moreover have "length (E @ M) \<in> set (occurrences E ?s)"
    using occurrence_at_insertion [of "E @ M" E "[]"] by simp
  moreover have "length (E @ M) \<noteq> 0" using assms by simp
  ultimately have "{0, length (E @ M)} \<subseteq> set (occurrences E ?s)" by simp
  then have "card {0, length (E @ M)} \<le> card (set (occurrences E ?s))"
    by (intro card_mono) auto
  moreover have "card {0, length (E @ M)} = 2" using \<open>length (E @ M) \<noteq> 0\<close> by simp
  ultimately show ?thesis using d by (simp add: distinct_card)
qed

lemma enhancements_nonempty: "enhancements \<noteq> []"
  by (simp add: enhancements_def enh_dialogs_def js_lines_def)

text \<open>
  Claim C2 as stated fails: for the input \<^verbatim>\<open></head>\<close> followed by the bundle text, the
  output holds the bundle twice, once inserted and once from the input.
\<close>

theorem inject_bundle_twice:
  "length (occurrences enhancements (injectGameEnhancements (head_close @ enhancements))) \<noteq> 1"
proof -
  have "injectGameEnhancements (head_close @ enhancements)
        = enhancements @ head_close @ enhancements"
    by (simp add: inject_cases find_first_at_start)
  with two_occurrences [OF enhancements_nonempty, of head_close] show ?thesis by simp
qed

lemma unique_not_in_tags:
  assumes "count_list enhancements c = 1"
  shows "c \<notin> set head_close" and "c \<notin> set head_open"
proof -
  show hc: "c \<notin> set head_close"
  proof
    assume "c \<in> set head_close"
    then have "c \<in> set enh_wiring" "c \<in> set enh_style"
      using tags_in_wiring tags_in_style by auto
    then have "count_list enh_wiring c \<noteq> 0" "count_list enh_style c \<noteq> 0"
      by (simp_all add: count_list_0_iff)
    then have "1 \<le> count_list enh_wiring c" "1 \<le> count_list enh_style c"
      by simp_all
    then have "2 \<le> count_list enhancements c" by (simp add: enhancements_def)
    with assms show False by simp
  qed
  have "set head_open \<subseteq> set head_close" by (simp add: head_open_def head_close_def asc_def)
  with hc show "c \<notin> set head_open" by auto
qed

text \<open>
  Claim C2, amended. The output is the input with one piece of text inserted: the bundle,
  or the bundle between \<^verbatim>\<open><head>\<close> and \<^verbatim>\<open></head>\<close>; the input's text before and after the
  insertion point is unchanged, and the bundle occurs at the insertion point. It occurs
  nowhere else whenever some character that the bundle holds exactly once is missing from
  the input.
\<close>

theorem inject_content_preserved:
  "\<exists>pre lead trail post.
      html = pre @ post
    \<and> (lead = [] \<and> trail = [] \<or> lead = head_open \<and> trail = head_close)
    \<and> injectGameEnhancements html = pre @ lead @ enhancements @ trail @ post
    \<and> length (pre @ lead) \<in> set (occurrences enhancements (injectGameEnhancements html))
    \<and> ((\<exists>c. count_list enhancements c = 1 \<and> c \<notin> set html) \<longrightarrow>
          occurrences enhancements (injectGameEnhancements html) = [length (pre @ lead)])"
proof -
  obtain pre lead trail post where
    html: "html = pre @ post" and
    tags: "lead = [] \<and> trail = [] \<or> lead = head_open \<and> trail = head_close" and
    out: "injectGameEnhancements html = pre @ lead @ enhancements @ trail @ post"
  proof (cases "find_first head_close html")
    case (Some pf)
    then obtain p f where pf: "find_first head_close html = Some (p, f)" by (cases pf) auto
    then have "html = p @ (head_close @ f)" by (rule find_first_Some_split)
    moreover have "injectGameEnhancements html = p @ [] @ enhancements @ [] @ (head_close @ f)"
      using pf by (simp add: inject_cases)
    ultimately show ?thesis using that by blast
  next
    case None
    show ?thesis
    proof (cases "find_first body_open html")
      case (Some pf)
      then obtain p f where pf: "find_first body_open html = Some (p, f)" by (cases pf) auto
      then have "html = p @ (body_open @ f)" by (rule find_first_Some_split)
      moreover have "injectGameEnhancements html
          = p @ head_open @ enhancements @ head_close @ (body_open @ f)"
        using pf None by (simp add: inject_cases)
      ultimately show ?thesis using that by blast
    next
      case None2: None
      have "html = [] @ html" by simp
      moreover have "injectGameEnhancements html = [] @ [] @ enhancements @ [] @ html"
        using None None2 by (simp add: inject_cases)
      ultimately show ?thesis using that by blast
    qed
  qed
  have at: "length (pre @ lead) \<in> set (occurrences enhancements (injectGameEnhancements html))"
    using occurrence_at_insertion [of "pre @ lead" enhancements "trail @ post"] out by simp
  have once: "occurrences enhancements (injectGameEnhancements html) = [length (pre @ lead)]"
    if "\<exists>c. count_list enhancements c = 1 \<and> c \<notin> set html"
  proof -
    from that obtain c where c: "count_list enhancements c = 1" "c \<notin> set html" by blast
    have "c \<notin> set (pre @ lead)" "c \<notin> set (trail @ post)"
      using c html tags unique_not_in_tags [OF c(1)] by auto
    with unique_occurrence [OF c(1), of "pre @ lead" "trail @ post"] out show ?thesis by simp
  qed
  from html tags out at once show ?thesis by blast
qed

theorem inject_content_preserved_witness:
  "count_list enhancements 24573 = 1 \<and> 24573 \<notin> set (asc ''<p>x</p>'')
   \<and> length (occurrences enhancements (injectGameEnhancements (asc ''<p>x</p>''))) = 1"
proof -
  have c: "count_list enhancements 24573 = 1" by (rule unique_char)
  have n: "24573 \<notin> set (asc ''<p>x</p>'')" by (simp add: asc_def)
  from c n have "\<exists>c. count_list enhancements c = 1 \<and> c \<notin> set (asc ''<p>x</p>'')" by blast
  with inject_content_preserved [of "asc ''<p>x</p>''"]
  have "length (occurrences enhancements (injectGameEnhancements (asc ''<p>x</p>''))) = 1"
    by auto
  with c n show ?thesis by simp
qed
section \<open>The matcher reads exactly the words of the pattern\<close>

text \<open>
  Every end state of the matcher is reached by reading a word of the pattern's language
  (soundness), and every word of the language at the start of the input leads to an end
  state (completeness). So a test succeeds exactly when the text holds a word of the
  language.
\<close>

lemma ms_sound:
  "st' \<in> set (ms ic r st) \<Longrightarrow> \<exists>w\<in>lang ic r. fst st = w @ fst st'"
proof (induction ic r st arbitrary: st' rule: ms.induct)
  case (1 ic a st)
  then show ?case by (cases "fst st") (auto split: if_splits)
next
  case (2 ic as st)
  then show ?case by (cases "fst st") (auto split: if_splits)
next
  case (3 ic as st)
  then show ?case by (cases "fst st") (auto split: if_splits)
next
  case (4 ic l st)
  then have ok: "list_all2 (ch_eq ic) l (take (length l) (fst st))"
    and st': "fst st' = drop (length l) (fst st)"
    by (auto split: if_splits)
  from ok have "take (length l) (fst st) \<in> lang ic (Lit l)" by simp
  moreover have "fst st = take (length l) (fst st) @ fst st'" using st' by simp
  ultimately show ?case by blast
next
  case (5 ic r1 r2 st)
  from "5.prems" obtain st1 where st1: "st1 \<in> set (ms ic r1 st)" and st2: "st' \<in> set (ms ic r2 st1)"
    by auto
  from "5.IH"(1) [OF st1] obtain u where u: "u \<in> lang ic r1" "fst st = u @ fst st1" by blast
  from "5.IH"(2) [OF st1 st2] obtain v where v: "v \<in> lang ic r2" "fst st1 = v @ fst st'" by blast
  from u v have "u @ v \<in> lang ic (Seq r1 r2)" "fst st = (u @ v) @ fst st'" by auto
  then show ?case by blast
next
  case (6 ic r1 r2 st)
  from "6.prems" have "st' \<in> set (ms ic r1 st) \<or> st' \<in> set (ms ic r2 st)" by simp
  then show ?case
  proof
    assume "st' \<in> set (ms ic r1 st)"
    from "6.IH"(1) [OF this] show ?thesis by auto
  next
    assume "st' \<in> set (ms ic r2 st)"
    from "6.IH"(2) [OF this] show ?thesis by auto
  qed
next
  case (7 ic r st)
  from "7.prems" consider "st' = st"
    | st1 where "st1 \<in> set (ms ic r st)" "length (fst st1) < length (fst st)"
        "st' \<in> set (ms ic (Star r) st1)"
    by (subst (asm) ms.simps) (auto split: if_splits)
  then show ?case
  proof cases
    case 1
    then show ?thesis by (auto intro: star_empty)
  next
    case 2
    from "7.IH"(1) [OF 2(1)] obtain u where u: "u \<in> lang ic r" "fst st = u @ fst st1" by blast
    from "7.IH"(2) [OF 2(1) 2(2) 2(3)] obtain v where
      v: "v \<in> star (lang ic r)" "fst st1 = v @ fst st'" by auto
    from u v have "u @ v \<in> lang ic (Star r)" "fst st = (u @ v) @ fst st'"
      by (auto intro: star_step)
    then show ?thesis by blast
  qed
next
  case (8 ic r st)
  from "8.prems" consider "st' = st"
    | st1 where "st1 \<in> set (ms ic r st)" "length (fst st1) < length (fst st)"
        "st' \<in> set (ms ic (Lazy r) st1)"
    by (subst (asm) ms.simps) (auto split: if_splits)
  then show ?case
  proof cases
    case 1
    then show ?thesis by (auto intro: star_empty)
  next
    case 2
    from "8.IH"(1) [OF 2(1)] obtain u where u: "u \<in> lang ic r" "fst st = u @ fst st1" by blast
    from "8.IH"(2) [OF 2(1) 2(2) 2(3)] obtain v where
      v: "v \<in> star (lang ic r)" "fst st1 = v @ fst st'" by auto
    from u v have "u @ v \<in> lang ic (Lazy r)" "fst st = (u @ v) @ fst st'"
      by (auto intro: star_step)
    then show ?thesis by blast
  qed
next
  case (9 ic n r st)
  then show ?case by auto
qed

lemma ms_star_complete:
  assumes r: "\<And>w s c. w \<in> lang ic r \<Longrightarrow> \<exists>c'. (s, c') \<in> set (ms ic r (w @ s, c))"
    and w: "w \<in> star (lang ic r)"
  shows "\<exists>c'. (s, c') \<in> set (ms ic (Star r) (w @ s, c))"
    and "\<exists>c'. (s, c') \<in> set (ms ic (Lazy r) (w @ s, c))"
proof -
  from w have "(\<forall>c. \<exists>c'. (s, c') \<in> set (ms ic (Star r) (w @ s, c)))
             \<and> (\<forall>c. \<exists>c'. (s, c') \<in> set (ms ic (Lazy r) (w @ s, c)))"
  proof (induction rule: star.induct)
    case star_empty
    have "(s, c) \<in> set (ms ic (Star r) (s, c))" "(s, c) \<in> set (ms ic (Lazy r) (s, c))" for c
      by (simp_all add: ms.simps(7,8) [of ic r "(s, c)"])
    then show ?case by auto
  next
    case (star_step u v)
    show ?case
    proof (cases "u = []")
      case True
      with star_step.IH show ?thesis by simp
    next
      case False
      show ?thesis
      proof (intro conjI allI)
        fix c
        from r [OF star_step.hyps(1), of "v @ s" c]
        obtain c1 where c1: "(v @ s, c1) \<in> set (ms ic r (u @ v @ s, c))" by blast
        from star_step.IH obtain c2 where c2: "(s, c2) \<in> set (ms ic (Star r) (v @ s, c1))"
          by blast
        have "length (fst (v @ s, c1)) < length (fst (u @ v @ s, c))" using False by simp
        with c1 c2 have "(s, c2) \<in> set (ms ic (Star r) (u @ v @ s, c))"
          by (subst ms.simps) force
        then show "\<exists>c'. (s, c') \<in> set (ms ic (Star r) ((u @ v) @ s, c))" by auto
      next
        fix c
        from r [OF star_step.hyps(1), of "v @ s" c]
        obtain c1 where c1: "(v @ s, c1) \<in> set (ms ic r (u @ v @ s, c))" by blast
        from star_step.IH obtain c2 where c2: "(s, c2) \<in> set (ms ic (Lazy r) (v @ s, c1))"
          by blast
        have "length (fst (v @ s, c1)) < length (fst (u @ v @ s, c))" using False by simp
        with c1 c2 have "(s, c2) \<in> set (ms ic (Lazy r) (u @ v @ s, c))"
          by (subst ms.simps) force
        then show "\<exists>c'. (s, c') \<in> set (ms ic (Lazy r) ((u @ v) @ s, c))" by auto
      qed
    qed
  qed
  then show "\<exists>c'. (s, c') \<in> set (ms ic (Star r) (w @ s, c))"
    and "\<exists>c'. (s, c') \<in> set (ms ic (Lazy r) (w @ s, c))" by blast+
qed

lemma ms_complete:
  "w \<in> lang ic r \<Longrightarrow> \<exists>c'. (s, c') \<in> set (ms ic r (w @ s, c))"
proof (induction r arbitrary: w s c)
  case (One a)
  then obtain x where "w = [x]" "atom_match ic a x" by auto
  then show ?case by simp
next
  case (AnyOf as)
  then obtain x where "w = [x]" "list_ex (\<lambda>a. atom_match ic a x) as" by auto
  then show ?case by simp
next
  case (NoneOf as)
  then obtain x where "w = [x]" "\<not> list_ex (\<lambda>a. atom_match ic a x) as" by auto
  then show ?case by simp
next
  case (Lit l)
  then have "list_all2 (ch_eq ic) l w" by simp
  then have "length l = length w" by (rule list_all2_lengthD)
  with \<open>list_all2 (ch_eq ic) l w\<close> show ?case by simp
next
  case (Seq r1 r2)
  then obtain u v where w: "w = u @ v" and u: "u \<in> lang ic r1" and v: "v \<in> lang ic r2" by auto
  from Seq.IH(1) [OF u, of "v @ s" c] obtain c1 where
    c1: "(v @ s, c1) \<in> set (ms ic r1 (u @ v @ s, c))" by blast
  from Seq.IH(2) [OF v, of s c1] obtain c2 where c2: "(s, c2) \<in> set (ms ic r2 (v @ s, c1))"
    by blast
  from c1 c2 have "(s, c2) \<in> set (ms ic (Seq r1 r2) (w @ s, c))" using w by force
  then show ?case by blast
next
  case (Alt r1 r2)
  from Alt.prems have "w \<in> lang ic r1 \<or> w \<in> lang ic r2" by simp
  then show ?case
  proof
    assume "w \<in> lang ic r1"
    from Alt.IH(1) [OF this, of s c] show ?thesis by auto
  next
    assume "w \<in> lang ic r2"
    from Alt.IH(2) [OF this, of s c] show ?thesis by auto
  qed
next
  case (Star r)
  then show ?case using ms_star_complete(1) [of ic r w s c] by simp
next
  case (Lazy r)
  then show ?case using ms_star_complete(2) [of ic r w s c] by simp
next
  case (Group n r)
  then have "w \<in> lang ic r" by simp
  from Group.IH [OF this, of s c] obtain c' where "(s, c') \<in> set (ms ic r (w @ s, c))" by blast
  then show ?case by force
qed

lemma ms_nonempty_iff:
  "ms ic r (s, c) \<noteq> [] \<longleftrightarrow> (\<exists>w b. s = w @ b \<and> w \<in> lang ic r)"
proof
  assume "ms ic r (s, c) \<noteq> []"
  then obtain st' where "st' \<in> set (ms ic r (s, c))" by (cases "ms ic r (s, c)") auto
  from ms_sound [OF this] show "\<exists>w b. s = w @ b \<and> w \<in> lang ic r" by auto
next
  assume "\<exists>w b. s = w @ b \<and> w \<in> lang ic r"
  then obtain w b where "s = w @ b" "w \<in> lang ic r" by blast
  with ms_complete [of w ic r b c] show "ms ic r (s, c) \<noteq> []" by auto
qed

lemma re_exec_None_iff:
  "re_exec ic r s = None \<longleftrightarrow> (\<forall>i\<le>length s. ms ic r (drop i s, []) = [])"
proof (induction s)
  case Nil
  then show ?case by (simp split: list.splits)
next
  case (Cons c cs)
  show ?case
  proof (cases "ms ic r (c # cs, [])")
    case Nil
    have "(\<forall>i\<le>length (c # cs). ms ic r (drop i (c # cs), []) = [])
          \<longleftrightarrow> (\<forall>i\<le>length cs. ms ic r (drop i cs, []) = [])"
    proof
      assume a: "\<forall>i\<le>length (c # cs). ms ic r (drop i (c # cs), []) = []"
      show "\<forall>i\<le>length cs. ms ic r (drop i cs, []) = []"
      proof (intro allI impI)
        fix i assume "i \<le> length cs"
        with a [rule_format, of "Suc i"] show "ms ic r (drop i cs, []) = []" by simp
      qed
    next
      assume a: "\<forall>i\<le>length cs. ms ic r (drop i cs, []) = []"
      show "\<forall>i\<le>length (c # cs). ms ic r (drop i (c # cs), []) = []"
      proof (intro allI impI)
        fix i assume i: "i \<le> length (c # cs)"
        show "ms ic r (drop i (c # cs), []) = []"
        proof (cases i)
          case 0
          with Nil show ?thesis by simp
        next
          case (Suc j)
          with i a [rule_format, of j] show ?thesis by simp
        qed
      qed
    qed
    with Nil Cons.IH show ?thesis by simp
  next
    case (Cons st sts)
    then have "re_exec ic r (c # cs) \<noteq> None" by simp
    moreover have "\<not> (\<forall>i\<le>length (c # cs). ms ic r (drop i (c # cs), []) = [])"
      using Cons by (auto intro!: exI [of _ 0])
    ultimately show ?thesis by blast
  qed
qed

lemma re_test_iff:
  "re_test ic r s \<longleftrightarrow> (\<exists>a w b. s = a @ w @ b \<and> w \<in> lang ic r)"
proof -
  have "re_test ic r s \<longleftrightarrow> (\<exists>i\<le>length s. ms ic r (drop i s, []) \<noteq> [])"
    by (simp add: re_test_def re_exec_None_iff)
  also have "\<dots> \<longleftrightarrow> (\<exists>a w b. s = a @ w @ b \<and> w \<in> lang ic r)"
  proof
    assume "\<exists>i\<le>length s. ms ic r (drop i s, []) \<noteq> []"
    then obtain i where i: "i \<le> length s" "ms ic r (drop i s, []) \<noteq> []" by blast
    then obtain w b where "drop i s = w @ b" "w \<in> lang ic r"
      by (auto simp: ms_nonempty_iff)
    then have "s = take i s @ w @ b \<and> w \<in> lang ic r" by (metis append_take_drop_id)
    then show "\<exists>a w b. s = a @ w @ b \<and> w \<in> lang ic r" by blast
  next
    assume "\<exists>a w b. s = a @ w @ b \<and> w \<in> lang ic r"
    then obtain a w b where s: "s = a @ w @ b" and w: "w \<in> lang ic r" by blast
    have "ms ic r (drop (length a) s, []) \<noteq> []"
      using w by (auto simp: s ms_nonempty_iff)
    moreover have "length a \<le> length s" by (simp add: s)
    ultimately show "\<exists>i\<le>length s. ms ic r (drop i s, []) \<noteq> []" by blast
  qed
  finally show ?thesis .
qed

subsection \<open>The languages of the pattern forms used\<close>

lemma star_class: "star {[c] | c. P c} = {w. \<forall>c\<in>set w. P c}"
proof (intro set_eqI iffI)
  fix w assume "w \<in> star {[c] | c. P c}"
  then show "w \<in> {w. \<forall>c\<in>set w. P c}" by (induction rule: star.induct) auto
next
  fix w assume "w \<in> {w. \<forall>c\<in>set w. P c}"
  then show "w \<in> star {[c] | c. P c}"
  proof (induction w)
    case Nil
    show ?case by (rule star_empty)
  next
    case (Cons c w)
    then have "[c] \<in> {[c] | c. P c}" "w \<in> star {[c] | c. P c}" by auto
    then have "[c] @ w \<in> star {[c] | c. P c}" by (rule star_step)
    then show ?case by simp
  qed
qed

lemma ch_eq_False: "ch_eq False = (=)"
  by (auto simp: ch_eq_def fun_eq_iff)

lemma list_all2_ch_eq_False: "list_all2 (ch_eq False) l w \<longleftrightarrow> w = l"
  by (auto simp: ch_eq_False list_all2_eq [symmetric])

lemma lang_Plus: "lang ic (Plus r) = {u @ v | u v. u \<in> lang ic r \<and> v \<in> star (lang ic r)}"
  by (simp add: Plus_def)

lemma in_lang_Lit_False: "w \<in> lang False (Lit l) \<longleftrightarrow> w = l"
  by (simp add: list_all2_ch_eq_False)

lemma in_lang_Seq:
  "w \<in> lang ic (Seq r1 r2) \<longleftrightarrow> (\<exists>u v. w = u @ v \<and> u \<in> lang ic r1 \<and> v \<in> lang ic r2)"
  by auto

lemma in_lang_Star_One:
  "w \<in> lang ic (Star (One a)) \<longleftrightarrow> (\<forall>c\<in>set w. atom_match ic a c)"
  by (simp add: star_class)

lemma in_lang_Star_NoneOf:
  "w \<in> lang ic (Star (NoneOf as)) \<longleftrightarrow> (\<forall>c\<in>set w. \<not> list_ex (\<lambda>a. atom_match ic a c) as)"
  by (simp add: star_class)

lemma in_lang_Star_AnyOf:
  "w \<in> lang ic (Star (AnyOf as)) \<longleftrightarrow> (\<forall>c\<in>set w. list_ex (\<lambda>a. atom_match ic a c) as)"
  by (simp add: star_class)

lemma in_lang_Plus_One:
  "w \<in> lang ic (Plus (One a)) \<longleftrightarrow> w \<noteq> [] \<and> (\<forall>c\<in>set w. atom_match ic a c)"
proof (cases w)
  case Nil
  then show ?thesis by (simp add: lang_Plus)
next
  case (Cons c v)
  have "c # v \<in> lang ic (Plus (One a))
        \<longleftrightarrow> atom_match ic a c \<and> (\<forall>x\<in>set v. atom_match ic a x)"
  proof
    assume "c # v \<in> lang ic (Plus (One a))"
    then obtain x va where "c # v = [x] @ va" "atom_match ic a x" "\<forall>y\<in>set va. atom_match ic a y"
      by (auto simp: lang_Plus star_class)
    then show "atom_match ic a c \<and> (\<forall>x\<in>set v. atom_match ic a x)" by simp
  next
    assume "atom_match ic a c \<and> (\<forall>x\<in>set v. atom_match ic a x)"
    then have "[c] \<in> lang ic (One a)" "v \<in> star (lang ic (One a))"
      by (simp_all add: star_class)
    then have "[c] @ v \<in> lang ic (Plus (One a))" unfolding lang_Plus by blast
    then show "c # v \<in> lang ic (Plus (One a))" by simp
  qed
  with Cons show ?thesis by simp
qed

lemmas in_lang = in_lang_Seq in_lang_Star_One in_lang_Star_NoneOf in_lang_Star_AnyOf
  in_lang_Plus_One

section \<open>Properties of the Heuristic Analyzer\<close>

lemma lang_re_distanceD:
  assumes "w \<in> lang False re_distance"
  shows "\<exists>args ws1 ws2 ds. w = asc ''Math.abs('' @ args @ asc '')'' @ ws1 @ asc ''<'' @ ws2 @ ds
        \<and> 41 \<notin> set args \<and> (\<forall>c\<in>set ws1. is_space c) \<and> (\<forall>c\<in>set ws2. is_space c)
        \<and> ds \<noteq> [] \<and> (\<forall>c\<in>set ds. is_digit c)"
proof -
  from assms obtain args ws1 ws2 ds where
    "w = asc ''Math.abs('' @ args @ asc '')'' @ ws1 @ asc ''<'' @ ws2 @ ds"
    "\<forall>c\<in>set args. \<not> list_ex (\<lambda>a. atom_match False a c) [Ch 41]"
    "\<forall>c\<in>set ws1. atom_match False Space c" "\<forall>c\<in>set ws2. atom_match False Space c"
    "ds \<noteq> []" "\<forall>c\<in>set ds. atom_match False Digit c"
    unfolding re_distance_def in_lang in_lang_Lit_False by blast
  then show ?thesis
    by (rule_tac x = args in exI, rule_tac x = ws1 in exI, rule_tac x = ws2 in exI,
        rule_tac x = ds in exI) (auto simp: ch_eq_def)
qed

lemma lang_re_distanceI:
  assumes "41 \<notin> set args" "\<forall>c\<in>set ws1. is_space c" "\<forall>c\<in>set ws2. is_space c"
    "ds \<noteq> []" "\<forall>c\<in>set ds. is_digit c"
  shows "asc ''Math.abs('' @ args @ asc '')'' @ ws1 @ asc ''<'' @ ws2 @ ds \<in> lang False re_distance"
proof -
  from assms have f: "\<forall>c\<in>set args. \<not> list_ex (\<lambda>a. atom_match False a c) [Ch 41]"
    "\<forall>c\<in>set ws1. atom_match False Space c" "\<forall>c\<in>set ws2. atom_match False Space c"
    "ds \<noteq> []" "\<forall>c\<in>set ds. atom_match False Digit c"
    by (auto simp: ch_eq_def)
  show ?thesis
    unfolding re_distance_def in_lang in_lang_Lit_False
    using f by (intro exI conjI) (assumption | rule refl)+
qed

lemma usesDistance_iff:
  "usesDistance html \<longleftrightarrow>
     (\<exists>a args ws1 ws2 ds b.
        html = a @ asc ''Math.abs('' @ args @ asc '')'' @ ws1 @ asc ''<'' @ ws2 @ ds @ b
        \<and> 41 \<notin> set args \<and> (\<forall>c\<in>set ws1. is_space c) \<and> (\<forall>c\<in>set ws2. is_space c)
        \<and> ds \<noteq> [] \<and> (\<forall>c\<in>set ds. is_digit c))"
proof
  assume "usesDistance html"
  then obtain a w b where html: "html = a @ w @ b" and "w \<in> lang False re_distance"
    unfolding usesDistance_def re_test_iff by blast
  from lang_re_distanceD [OF this(2)] obtain args ws1 ws2 ds where
    w: "w = asc ''Math.abs('' @ args @ asc '')'' @ ws1 @ asc ''<'' @ ws2 @ ds" and
    g: "41 \<notin> set args" "\<forall>c\<in>set ws1. is_space c" "\<forall>c\<in>set ws2. is_space c"
    "ds \<noteq> []" "\<forall>c\<in>set ds. is_digit c"
    by (elim exE conjE)
  from g show "\<exists>a args ws1 ws2 ds b.
        html = a @ asc ''Math.abs('' @ args @ asc '')'' @ ws1 @ asc ''<'' @ ws2 @ ds @ b
        \<and> 41 \<notin> set args \<and> (\<forall>c\<in>set ws1. is_space c) \<and> (\<forall>c\<in>set ws2. is_space c)
        \<and> ds \<noteq> [] \<and> (\<forall>c\<in>set ds. is_digit c)"
    by (rule_tac x = a in exI, rule_tac x = args in exI, rule_tac x = ws1 in exI,
        rule_tac x = ws2 in exI, rule_tac x = ds in exI, rule_tac x = b in exI)
       (simp add: html w)
next
  assume "\<exists>a args ws1 ws2 ds b.
        html = a @ asc ''Math.abs('' @ args @ asc '')'' @ ws1 @ asc ''<'' @ ws2 @ ds @ b
        \<and> 41 \<notin> set args \<and> (\<forall>c\<in>set ws1. is_space c) \<and> (\<forall>c\<in>set ws2. is_space c)
        \<and> ds \<noteq> [] \<and> (\<forall>c\<in>set ds. is_digit c)"
  then obtain a args ws1 ws2 ds b where
    html: "html = a @ asc ''Math.abs('' @ args @ asc '')'' @ ws1 @ asc ''<'' @ ws2 @ ds @ b" and
    g: "41 \<notin> set args" "\<forall>c\<in>set ws1. is_space c" "\<forall>c\<in>set ws2. is_space c"
    "ds \<noteq> []" "\<forall>c\<in>set ds. is_digit c"
    by (elim exE conjE)
  let ?w = "asc ''Math.abs('' @ args @ asc '')'' @ ws1 @ asc ''<'' @ ws2 @ ds"
  have "?w \<in> lang False re_distance" using g by (rule lang_re_distanceI)
  moreover have "html = a @ ?w @ b" by (simp add: html)
  ultimately show "usesDistance html" unfolding usesDistance_def re_test_iff by blast
qed

text \<open>The rewrite rules that evaluate a pattern on a given text.\<close>

lemmas re_eval = re_test_def asc_def Plus_def ch_eq_def canon_def is_space_def is_digit_def
  is_line_terminator_def ms.simps(7,8)

lemma suggestions_distinct: "distinct (map snd rule_table)"
  unfolding rule_table_def
  by (simp add: text_buttons_def text_arrow_keys_def text_collision_def text_body_layout_def
      text_game_area_def text_charset_def asc_def)

lemma analyze_table:
  "analyzeGameHtml html = map snd (filter (\<lambda>rule. fst rule html) rule_table)"
  unfolding analyzeGameHtml_def rule_table_def push_def Let_def by simp

text \<open>
  Claim C5. The analyzer is a function of the text (total and deterministic); its output
  is the suggestions of the rules that fire, in the order of the rule table, each rule
  contributing its one suggestion or nothing; the six suggestions are pairwise different,
  so the output is a subsequence of the table's and has at most six entries.
\<close>

theorem analyze_fixed_order:
  "analyzeGameHtml html = map snd (filter (\<lambda>rule. fst rule html) rule_table)
   \<and> length rule_table = 6
   \<and> distinct (map snd rule_table)
   \<and> subseq (analyzeGameHtml html) (map snd rule_table)
   \<and> length (analyzeGameHtml html) \<le> 6"
proof -
  have t: "analyzeGameHtml html = map snd (filter (\<lambda>rule. fst rule html) rule_table)"
    by (rule analyze_table)
  have len: "length rule_table = 6" by (simp add: rule_table_def)
  have "subseq (filter (\<lambda>rule. fst rule html) rule_table) rule_table" by simp
  then have sub: "subseq (analyzeGameHtml html) (map snd rule_table)"
    unfolding t by (rule subseq_map)
  have "length (filter (\<lambda>rule. fst rule html) rule_table) \<le> length rule_table"
    by (rule length_filter_le)
  then have "length (analyzeGameHtml html) \<le> 6" unfolding t using len by simp
  with t len suggestions_distinct sub show ?thesis by blast
qed

lemma texts_distinct:
  "distinct [text_buttons, text_arrow_keys, text_collision, text_body_layout, text_game_area,
     text_charset]"
  by (simp add: text_buttons_def text_arrow_keys_def text_collision_def text_body_layout_def
      text_game_area_def text_charset_def asc_def)

lemma collision_member:
  "\<lparr>level = Warning, text' = text_collision\<rparr> \<in> set (analyzeGameHtml html)
     \<longleftrightarrow> usesDistance html \<and> \<not> usesAABB html"
  using texts_distinct unfolding analyzeGameHtml_def push_def Let_def by auto

lemma collision_count:
  "length (filter (\<lambda>d. d = \<lparr>level = Warning, text' = text_collision\<rparr>) (analyzeGameHtml html))
     = (if usesDistance html \<and> \<not> usesAABB html then 1 else 0)"
  using texts_distinct unfolding analyzeGameHtml_def push_def Let_def by auto

lemma charset_count:
  "length (filter (\<lambda>d. d = \<lparr>level = Warning, text' = text_charset\<rparr>) (analyzeGameHtml html))
     = (if re_test True re_charset html then 0 else 1)"
  using texts_distinct unfolding analyzeGameHtml_def push_def Let_def by auto

lemma in_lang_Lit: "w \<in> lang ic (Lit l) \<longleftrightarrow> list_all2 (ch_eq ic) l w"
  by simp

lemma re_test_Lit_False: "re_test False (Lit l) html \<longleftrightarrow> sublist l html"
  unfolding re_test_iff in_lang_Lit_False sublist_def by blast

lemma re_test_side:
  "re_test True re_side html \<longleftrightarrow>
     (\<exists>x. sublist x html \<and>
        (list_all2 (ch_eq True) (asc ''left'') x \<or> list_all2 (ch_eq True) (asc ''right'') x
         \<or> list_all2 (ch_eq True) (asc ''top'') x \<or> list_all2 (ch_eq True) (asc ''bottom'') x))"
proof -
  have "w \<in> lang True re_side \<longleftrightarrow>
        (list_all2 (ch_eq True) (asc ''left'') w \<or> list_all2 (ch_eq True) (asc ''right'') w
         \<or> list_all2 (ch_eq True) (asc ''top'') w \<or> list_all2 (ch_eq True) (asc ''bottom'') w)"
    for w by (simp add: re_side_def)
  then show ?thesis unfolding re_test_iff sublist_def by blast
qed

lemma usesAABB_iff:
  "usesAABB html \<longleftrightarrow>
     sublist (asc ''getBoundingClientRect()'') html \<and>
     (\<exists>x. sublist x html \<and>
        (list_all2 (ch_eq True) (asc ''left'') x \<or> list_all2 (ch_eq True) (asc ''right'') x
         \<or> list_all2 (ch_eq True) (asc ''top'') x \<or> list_all2 (ch_eq True) (asc ''bottom'') x))"
  by (simp add: usesAABB_def re_bounding_rect_def re_test_Lit_False re_test_side)

lemma lang_re_charset:
  "w \<in> lang True re_charset \<longleftrightarrow>
     (\<exists>x m y. w = x @ m @ y \<and> list_all2 (ch_eq True) (asc ''charset='') x
        \<and> (\<forall>c\<in>set m. \<not> is_line_terminator c) \<and> list_all2 (ch_eq True) (asc ''utf-8'') y)"
proof
  assume "w \<in> lang True re_charset"
  then obtain x m y where "w = x @ m @ y" "list_all2 (ch_eq True) (asc ''charset='') x"
    "\<forall>c\<in>set m. atom_match True Dot c" "list_all2 (ch_eq True) (asc ''utf-8'') y"
    unfolding re_charset_def in_lang in_lang_Lit by blast
  then show "\<exists>x m y. w = x @ m @ y \<and> list_all2 (ch_eq True) (asc ''charset='') x
        \<and> (\<forall>c\<in>set m. \<not> is_line_terminator c) \<and> list_all2 (ch_eq True) (asc ''utf-8'') y"
    by (rule_tac x = x in exI, rule_tac x = m in exI, rule_tac x = y in exI) simp
next
  assume "\<exists>x m y. w = x @ m @ y \<and> list_all2 (ch_eq True) (asc ''charset='') x
        \<and> (\<forall>c\<in>set m. \<not> is_line_terminator c) \<and> list_all2 (ch_eq True) (asc ''utf-8'') y"
  then obtain x m y where w: "w = x @ m @ y"
    and g: "list_all2 (ch_eq True) (asc ''charset='') x"
    "\<forall>c\<in>set m. \<not> is_line_terminator c" "list_all2 (ch_eq True) (asc ''utf-8'') y"
    by (elim exE conjE)
  from g have f: "list_all2 (ch_eq True) (asc ''charset='') x"
    "\<forall>c\<in>set m. atom_match True Dot c" "list_all2 (ch_eq True) (asc ''utf-8'') y"
    by simp_all
  show "w \<in> lang True re_charset"
    unfolding re_charset_def in_lang in_lang_Lit w
    using f by (intro exI conjI) (assumption | rule refl)+
qed

lemma re_charset_iff: "re_test True re_charset html \<longleftrightarrow> charset_utf8_on_one_line html"
proof
  assume "re_test True re_charset html"
  then obtain a w b where html: "html = a @ w @ b" and w: "w \<in> lang True re_charset"
    unfolding re_test_iff by blast
  from w obtain x m y where "w = x @ m @ y" "list_all2 (ch_eq True) (asc ''charset='') x"
    "\<forall>c\<in>set m. \<not> is_line_terminator c" "list_all2 (ch_eq True) (asc ''utf-8'') y"
    unfolding lang_re_charset by (elim exE conjE)
  then show "charset_utf8_on_one_line html"
    unfolding charset_utf8_on_one_line_def
    by (rule_tac x = a in exI, rule_tac x = x in exI, rule_tac x = m in exI,
        rule_tac x = y in exI, rule_tac x = b in exI) (simp add: html)
next
  assume "charset_utf8_on_one_line html"
  then obtain a x m y b where html: "html = a @ x @ m @ y @ b"
    and f: "list_all2 (ch_eq True) (asc ''charset='') x"
    "\<forall>c\<in>set m. \<not> is_line_terminator c" "list_all2 (ch_eq True) (asc ''utf-8'') y"
    unfolding charset_utf8_on_one_line_def by (elim exE conjE)
  from f have "x @ m @ y \<in> lang True re_charset" unfolding lang_re_charset by blast
  moreover have "html = a @ (x @ m @ y) @ b" by (simp add: html)
  ultimately show "re_test True re_charset html" unfolding re_test_iff by blast
qed

text \<open>The analyzer on a text on which five of the six rules fire.\<close>

theorem analyze_fixed_order_witness:
  "analyzeGameHtml (asc ''if (Math.abs(a-b) < 30) left button'')
     = [\<lparr>level = Warning, text' = text_buttons\<rparr>, \<lparr>level = Info, text' = text_arrow_keys\<rparr>,
        \<lparr>level = Warning, text' = text_collision\<rparr>, \<lparr>level = Info, text' = text_game_area\<rparr>,
        \<lparr>level = Warning, text' = text_charset\<rparr>]
   \<and> length (analyzeGameHtml (asc ''if (Math.abs(a-b) < 30) left button'')) \<le> 6"
proof -
  have "analyzeGameHtml (asc ''if (Math.abs(a-b) < 30) left button'')
     = [\<lparr>level = Warning, text' = text_buttons\<rparr>, \<lparr>level = Info, text' = text_arrow_keys\<rparr>,
        \<lparr>level = Warning, text' = text_collision\<rparr>, \<lparr>level = Info, text' = text_game_area\<rparr>,
        \<lparr>level = Warning, text' = text_charset\<rparr>]"
    by (simp add: analyzeGameHtml_def push_def mentionsButtons_def hasLeftRightButtons_def
      hasArrowKeys_def usesAABB_def usesDistance_def setsBodyLayout_def hasGameArea_def
      re_mentions_buttons_def re_left_right_buttons_def re_arrow_keys_def re_bounding_rect_def
      re_side_def re_distance_def re_body_layout_def re_game_area_def re_charset_def re_eval)
  moreover from analyze_fixed_order [of "asc ''if (Math.abs(a-b) < 30) left button''"]
  have "length (analyzeGameHtml (asc ''if (Math.abs(a-b) < 30) left button'')) \<le> 6"
    by blast
  ultimately show ?thesis by blast
qed

text \<open>
  Claim C6 as stated fails: a document without any \<^verbatim>\<open><meta>\<close> tag whose text mentions
  \<^verbatim>\<open>charset=utf-8\<close> gets no charset warning.
\<close>

theorem charset_rule_counterexample:
  "\<not> sublist (asc ''<meta'') (asc ''<html><body><p>Save as charset=utf-8</p></body></html>'')
   \<and> length (filter (\<lambda>d. d = \<lparr>level = Warning, text' = text_charset\<rparr>)
         (analyzeGameHtml (asc ''<html><body><p>Save as charset=utf-8</p></body></html>''))) \<noteq> 1"
  by (simp add: sublist_eval charset_count re_charset_def re_eval)

text \<open>
  Claim C6, amended. The output holds the charset warning exactly once when the text has
  no \<^verbatim>\<open>charset=\<close> followed on the same line by \<^verbatim>\<open>utf-8\<close> (compared without regard to
  case), and not at all otherwise. In particular a text in which \<^verbatim>\<open>charset=\<close> does not
  occur in any spelling gets the warning once, and a text holding
  \<^verbatim>\<open><meta charset="UTF-8">\<close> gets none.
\<close>

theorem charset_rule:
  "length (filter (\<lambda>d. d = \<lparr>level = Warning, text' = text_charset\<rparr>) (analyzeGameHtml html))
     = (if charset_utf8_on_one_line html then 0 else 1)
   \<and> ((\<forall>x. list_all2 (ch_eq True) (asc ''charset='') x \<longrightarrow> \<not> sublist x html) \<longrightarrow>
        length (filter (\<lambda>d. d = \<lparr>level = Warning, text' = text_charset\<rparr>) (analyzeGameHtml html))
          = 1)
   \<and> (sublist (asc ''<meta charset=\"UTF-8\">'') html \<longrightarrow>
        length (filter (\<lambda>d. d = \<lparr>level = Warning, text' = text_charset\<rparr>) (analyzeGameHtml html))
          = 0)"
proof (intro conjI impI)
  show count: "length (filter (\<lambda>d. d = \<lparr>level = Warning, text' = text_charset\<rparr>)
      (analyzeGameHtml html)) = (if charset_utf8_on_one_line html then 0 else 1)"
    by (simp add: charset_count re_charset_iff)
  {
    assume none: "\<forall>x. list_all2 (ch_eq True) (asc ''charset='') x \<longrightarrow> \<not> sublist x html"
    have "\<not> charset_utf8_on_one_line html"
    proof
      assume "charset_utf8_on_one_line html"
      then obtain a x m y b where "html = a @ x @ m @ y @ b"
        "list_all2 (ch_eq True) (asc ''charset='') x"
        unfolding charset_utf8_on_one_line_def by (elim exE conjE)
      then have "sublist x html" "list_all2 (ch_eq True) (asc ''charset='') x"
        by (auto simp: sublist_def)
      with none show False by blast
    qed
    with count show "length (filter (\<lambda>d. d = \<lparr>level = Warning, text' = text_charset\<rparr>)
      (analyzeGameHtml html)) = 1" by simp
  }
  {
    assume "sublist (asc ''<meta charset=\"UTF-8\">'') html"
    then obtain p q where html: "html = p @ asc ''<meta charset=\"UTF-8\">'' @ q"
      by (auto simp: sublist_def)
    have "html = (p @ asc ''<meta '') @ asc ''charset='' @ asc ''\"'' @ asc ''UTF-8''
             @ (asc ''\">'' @ q)"
      by (simp add: html asc_def)
    moreover have "list_all2 (ch_eq True) (asc ''charset='') (asc ''charset='')"
      "\<forall>c\<in>set (asc ''\"''). \<not> is_line_terminator c"
      "list_all2 (ch_eq True) (asc ''utf-8'') (asc ''UTF-8'')"
      by (simp_all add: asc_def ch_eq_def canon_def is_line_terminator_def)
    ultimately have "charset_utf8_on_one_line html"
      unfolding charset_utf8_on_one_line_def by blast
    with count show "length (filter (\<lambda>d. d = \<lparr>level = Warning, text' = text_charset\<rparr>)
      (analyzeGameHtml html)) = 0" by simp
  }
qed


lemma no_equals_no_charset:
  assumes "61 \<notin> set html"
  shows "\<forall>x. list_all2 (ch_eq True) (asc ''charset='') x \<longrightarrow> \<not> sublist x html"
proof (intro allI impI notI)
  fix x
  assume x: "list_all2 (ch_eq True) (asc ''charset='') x" and sub: "sublist x html"
  from x have "length x = 8" by (simp add: asc_def list_all2_lengthD [symmetric])
  with x have "ch_eq True 61 (x ! 7)"
    using list_all2_nthD [of "ch_eq True" "asc ''charset=''" x 7] by (simp add: asc_def)
  then have "x ! 7 = 61" by (simp add: ch_eq_def canon_def split: if_splits)
  moreover have "7 < length x" using \<open>length x = 8\<close> by simp
  ultimately have "61 \<in> set x" using nth_mem by metis
  with sub have "61 \<in> set html" using set_mono_sublist by blast
  with assms show False by simp
qed

theorem charset_rule_witness:
  "length (filter (\<lambda>d. d = \<lparr>level = Warning, text' = text_charset\<rparr>)
      (analyzeGameHtml (asc ''<html><body>hi</body></html>''))) = 1
   \<and> sublist (asc ''<meta charset=\"UTF-8\">'')
        (asc ''<html><head><meta charset=\"UTF-8\"></head></html>'')
   \<and> length (filter (\<lambda>d. d = \<lparr>level = Warning, text' = text_charset\<rparr>)
      (analyzeGameHtml (asc ''<html><head><meta charset=\"UTF-8\"></head></html>''))) = 0"
proof -
  have "61 \<notin> set (asc ''<html><body>hi</body></html>'')" by (simp add: asc_def)
  then have "\<forall>x. list_all2 (ch_eq True) (asc ''charset='') x
      \<longrightarrow> \<not> sublist x (asc ''<html><body>hi</body></html>'')"
    by (rule no_equals_no_charset)
  with charset_rule [of "asc ''<html><body>hi</body></html>''"]
  have one: "length (filter (\<lambda>d. d = \<lparr>level = Warning, text' = text_charset\<rparr>)
      (analyzeGameHtml (asc ''<html><body>hi</body></html>''))) = 1" by blast
  have sub: "sublist (asc ''<meta charset=\"UTF-8\">'')
        (asc ''<html><head><meta charset=\"UTF-8\"></head></html>'')"
    by (simp add: sublist_eval asc_def)
  with charset_rule [of "asc ''<html><head><meta charset=\"UTF-8\"></head></html>''"]
  have "length (filter (\<lambda>d. d = \<lparr>level = Warning, text' = text_charset\<rparr>)
      (analyzeGameHtml (asc ''<html><head><meta charset=\"UTF-8\"></head></html>''))) = 0"
    by blast
  with one sub show ?thesis by blast
qed

text \<open>
  Claim C7. The third rule contributes its warning if and only if the distance pattern is
  detected and the bounding-box pattern is not; it contributes it at most once. The
  distance pattern is detected exactly when the text holds \<^verbatim>\<open>Math.abs(\<close>, arguments without
  a closing parenthesis, \<^verbatim>\<open>)\<close>, optional white space, \<^verbatim>\<open><\<close>, optional white space and a
  digit; the bounding-box pattern exactly when the text holds
  \<^verbatim>\<open>getBoundingClientRect()\<close> and, in any spelling of case, one of the words left, right,
  top, bottom.
\<close>

theorem collision_rule:
  "(\<lparr>level = Warning, text' = text_collision\<rparr> \<in> set (analyzeGameHtml html)
      \<longleftrightarrow> usesDistance html \<and> \<not> usesAABB html)
   \<and> length (filter (\<lambda>d. d = \<lparr>level = Warning, text' = text_collision\<rparr>)
        (analyzeGameHtml html)) \<le> 1
   \<and> (usesDistance html \<longleftrightarrow>
        (\<exists>a args ws1 ws2 ds b.
           html = a @ asc ''Math.abs('' @ args @ asc '')'' @ ws1 @ asc ''<'' @ ws2 @ ds @ b
           \<and> 41 \<notin> set args \<and> (\<forall>c\<in>set ws1. is_space c) \<and> (\<forall>c\<in>set ws2. is_space c)
           \<and> ds \<noteq> [] \<and> (\<forall>c\<in>set ds. is_digit c)))
   \<and> (usesAABB html \<longleftrightarrow>
        sublist (asc ''getBoundingClientRect()'') html \<and>
        (\<exists>x. sublist x html \<and>
           (list_all2 (ch_eq True) (asc ''left'') x \<or> list_all2 (ch_eq True) (asc ''right'') x
            \<or> list_all2 (ch_eq True) (asc ''top'') x
            \<or> list_all2 (ch_eq True) (asc ''bottom'') x)))"
  using collision_member [of html] usesDistance_iff [of html] usesAABB_iff [of html]
  by (simp add: collision_count)

theorem collision_rule_witness:
  "\<lparr>level = Warning, text' = text_collision\<rparr>
      \<in> set (analyzeGameHtml (asc ''if (Math.abs(a.x - b.x) < 30) hit()''))
   \<and> \<lparr>level = Warning, text' = text_collision\<rparr>
      \<notin> set (analyzeGameHtml
          (asc ''r = el.getBoundingClientRect(); if (Math.abs(r.left - x) < 30) hit()''))"
proof -
  have "usesDistance (asc ''if (Math.abs(a.x - b.x) < 30) hit()'')"
    "\<not> usesAABB (asc ''if (Math.abs(a.x - b.x) < 30) hit()'')"
    "usesAABB (asc ''r = el.getBoundingClientRect(); if (Math.abs(r.left - x) < 30) hit()'')"
    by (simp_all add: usesDistance_def usesAABB_def re_distance_def re_bounding_rect_def
        re_side_def re_eval)
  with collision_rule [of "asc ''if (Math.abs(a.x - b.x) < 30) hit()''"]
    collision_rule
      [of "asc ''r = el.getBoundingClientRect(); if (Math.abs(r.left - x) < 30) hit()''"]
  show ?thesis by blast
qed
section \<open>Properties of the Score Parser\<close>

subsection \<open>What the patterns capture and what \<^verbatim>\<open>parseInt\<close> makes of it\<close>

lemma ms_Group_capture:
  assumes "st' \<in> set (ms ic (Group n r) st)"
  shows "\<exists>w\<in>lang ic r. fst st = w @ fst st' \<and> capture (snd st') n = Some w"
proof -
  from assms obtain st1 where st1: "st1 \<in> set (ms ic r st)"
    and st': "st' = (fst st1, (n, take (length (fst st) - length (fst st1)) (fst st)) # snd st1)"
    by auto
  from ms_sound [OF st1] obtain w where w: "w \<in> lang ic r" "fst st = w @ fst st1" by blast
  then have "take (length (fst st) - length (fst st1)) (fst st) = w" by simp
  with st' w show ?thesis by (auto simp: capture_def)
qed

lemma score_pattern_capture:
  assumes "st' \<in> set (ms ic (Seq (Lit l) (Seq (Star (AnyOf cls)) (Group 1 (Plus (One Digit))))) st)"
  shows "\<exists>ds. capture (snd st') 1 = Some ds \<and> ds \<noteq> [] \<and> (\<forall>c\<in>set ds. is_digit c)"
proof -
  from assms obtain st2 where "st' \<in> set (ms ic (Group 1 (Plus (One Digit))) st2)"
    by auto
  from ms_Group_capture [OF this] obtain w where
    "w \<in> lang ic (Plus (One Digit))" "capture (snd st') 1 = Some w" by blast
  then show ?thesis by (auto simp: in_lang_Plus_One)
qed

lemma re_exec_Some_mem:
  "re_exec ic r s = Some st \<Longrightarrow> \<exists>i\<le>length s. st \<in> set (ms ic r (drop i s, []))"
proof (induction s)
  case Nil
  then show ?case by (auto split: list.splits)
next
  case (Cons c cs)
  show ?case
  proof (cases "ms ic r (c # cs, [])")
    case Nil
    with Cons.prems have "re_exec ic r cs = Some st" by simp
    from Cons.IH [OF this] obtain i where "i \<le> length cs" "st \<in> set (ms ic r (drop i cs, []))"
      by blast
    then have "Suc i \<le> length (c # cs)" "st \<in> set (ms ic r (drop (Suc i) (c # cs), []))"
      by simp_all
    then show ?thesis by blast
  next
    case (Cons x xs)
    with Cons.prems have "st \<in> set (ms ic r (drop 0 (c # cs), []))" by simp
    then show ?thesis by blast
  qed
qed

lemma digit_not_space: "is_digit c \<Longrightarrow> \<not> is_space c"
  by (auto simp: is_digit_def is_space_def)

lemma digit_value_digit: "is_digit c \<Longrightarrow> digit_value c = Some (c - 48)"
  by (simp add: is_digit_def digit_value_def)

lemma radix_value_decimal:
  "\<forall>c\<in>set ds. is_digit c \<Longrightarrow>
   foldl (\<lambda>a c. a * 10 + (case digit_value c of Some d \<Rightarrow> d | None \<Rightarrow> 0)) a ds
     = foldl (\<lambda>a c. 10 * a + (c - 48)) a ds"
proof (induction ds arbitrary: a)
  case Nil
  show ?case by simp
next
  case (Cons c cs)
  then have "digit_value c = Some (c - 48)" by (simp add: digit_value_digit)
  moreover have "\<forall>c\<in>set cs. is_digit c" using Cons.prems by simp
  ultimately show ?case using Cons.IH by (simp add: mult.commute)
qed

lemma parseInt_digits:
  assumes "ds \<noteq> []" and digits: "\<forall>c\<in>set ds. is_digit c"
  shows "parseInt (Some ds) = Fin (of_nat (decimal ds))"
proof -
  from assms obtain c cs where ds: "ds = c # cs" by (cases ds) auto
  with digits have c: "is_digit c" by simp
  have drop: "dropWhile is_space ds = ds" using c ds by (simp add: digit_not_space)
  have sign: "c \<noteq> 45" "c \<noteq> 43" using c by (auto simp: is_digit_def)
  have hex: "(case ds of c # d # cs \<Rightarrow> c = 48 \<and> (d = 120 \<or> d = 88) | _ \<Rightarrow> False) = False"
    using digits ds by (cases cs) (auto simp: is_digit_def)
  have all: "takeWhile (is_radix_digit 10) ds = ds"
    using digits by (auto simp: takeWhile_eq_all_conv is_radix_digit_def digit_value_def
        is_digit_def)
  have val: "radix_value 10 ds = decimal ds"
    unfolding radix_value_def decimal_def using digits by (rule radix_value_decimal)
  show ?thesis
    unfolding parseInt_def using drop sign hex all val assms(1)
    by (simp add: Let_def ds)
qed

lemma score_match_nonneg:
  assumes "str_match s ic (Seq (Lit l) (Seq (Star (AnyOf cls)) (Group 1 (Plus (One Digit))))) = Some m"
  shows "\<exists>ds. capture m 1 = Some ds \<and> ds \<noteq> [] \<and> (\<forall>c\<in>set ds. is_digit c)
           \<and> parseInt (capture m 1) = Fin (of_nat (decimal ds))"
proof -
  from assms obtain st where st: "re_exec ic (Seq (Lit l) (Seq (Star (AnyOf cls))
      (Group 1 (Plus (One Digit))))) s = Some st" and m: "m = snd st"
    by (auto simp: str_match_def)
  from re_exec_Some_mem [OF st] obtain i where
    "st \<in> set (ms ic (Seq (Lit l) (Seq (Star (AnyOf cls)) (Group 1 (Plus (One Digit)))))
        (drop i s, []))" by blast
  from score_pattern_capture [OF this] obtain ds where
    ds: "capture (snd st) 1 = Some ds" "ds \<noteq> []" "\<forall>c\<in>set ds. is_digit c" by blast
  with parseInt_digits [of ds] m show ?thesis by auto
qed

subsection \<open>The first match of a labeled-number pattern\<close>

lemma star_greedy:
  assumes step: "\<And>x t c. ms ic r (x # t, c) = (if P x then [(t, c)] else [])"
    and nil: "\<And>c. ms ic r ([], c) = []"
    and u: "\<forall>x\<in>set u. P x" and t: "t = [] \<or> \<not> P (hd t)"
  shows "\<exists>ys. ms ic (Star r) (u @ t, c) = (t, c) # ys"
  using u
proof (induction u)
  case Nil
  have "ms ic r (t, c) = []"
  proof (cases t)
    case Nil
    then show ?thesis by (simp add: nil)
  next
    case (Cons x t')
    with t have "\<not> P x" by simp
    with Cons show ?thesis by (simp add: step)
  qed
  then show ?case by (simp add: ms.simps(7))
next
  case (Cons x u)
  then obtain ys where ys: "ms ic (Star r) (u @ t, c) = (t, c) # ys" by auto
  have "ms ic r (x # u @ t, c) = [(u @ t, c)]" using Cons.prems by (simp add: step)
  then have "ms ic (Star r) ((x # u) @ t, c) = ms ic (Star r) (u @ t, c) @ [(x # u @ t, c)]"
    by (simp add: ms.simps(7) [of ic r "(x # u @ t, c)"])
  with ys show ?case by simp
qed

lemma ms_Lit_prefix:
  "list_all2 (ch_eq ic) l x \<Longrightarrow> ms ic (Lit l) (x @ t, c) = [(t, c)]"
  by (simp add: list_all2_lengthD)

lemma score_pattern_first:
  assumes l: "list_all2 (ch_eq ic) l x"
    and seps: "\<forall>c\<in>set seps. list_ex (\<lambda>a. atom_match ic a c) cls"
    and ds: "ds \<noteq> []" "\<forall>c\<in>set ds. is_digit c"
    and sep_digit: "\<not> list_ex (\<lambda>a. atom_match ic a (hd ds)) cls"
    and rest: "rest = [] \<or> \<not> is_digit (hd rest)"
  shows "\<exists>ys. ms ic (Seq (Lit l) (Seq (Star (AnyOf cls)) (Group 1 (Plus (One Digit)))))
            (x @ seps @ ds @ rest, c0) = (rest, (1, ds) # c0) # ys"
proof -
  from ds obtain d ds' where dds: "ds = d # ds'" by (cases ds) auto
  have digits: "\<exists>ys. ms ic (Star (One Digit)) (ds' @ rest, c0) = (rest, c0) # ys"
    using ds(2) rest by (intro star_greedy [where P = is_digit]) (auto simp: dds)
  then obtain ys1 where ys1: "ms ic (Star (One Digit)) (ds' @ rest, c0) = (rest, c0) # ys1"
    by blast
  have "ms ic (One Digit) (ds @ rest, c0) = [(ds' @ rest, c0)]"
    using ds(2) by (simp add: dds)
  then have plus: "ms ic (Plus (One Digit)) (ds @ rest, c0) = (rest, c0) # ys1"
    by (simp add: Plus_def ys1)
  have grp: "ms ic (Group 1 (Plus (One Digit))) (ds @ rest, c0)
      = (rest, (1, ds) # c0)
        # map (\<lambda>st'. (fst st', (1, take (length (ds @ rest) - length (fst st')) (ds @ rest))
                          # snd st')) ys1"
    by (simp add: plus)
  have "ds @ rest = [] \<or> \<not> list_ex (\<lambda>a. atom_match ic a (hd (ds @ rest))) cls"
    using sep_digit ds(1) by simp
  with seps have "\<exists>ys. ms ic (Star (AnyOf cls)) (seps @ ds @ rest, c0) = (ds @ rest, c0) # ys"
    by (intro star_greedy [where P = "\<lambda>c. list_ex (\<lambda>a. atom_match ic a c) cls"]) auto
  then obtain ys2 where
    ys2: "ms ic (Star (AnyOf cls)) (seps @ ds @ rest, c0) = (ds @ rest, c0) # ys2" by blast
  have "ms ic (Seq (Star (AnyOf cls)) (Group 1 (Plus (One Digit)))) (seps @ ds @ rest, c0)
      = ms ic (Group 1 (Plus (One Digit))) (ds @ rest, c0)
        @ concat (map (ms ic (Group 1 (Plus (One Digit)))) ys2)"
    by (simp add: ys2)
  moreover have "ms ic (Seq (Lit l) (Seq (Star (AnyOf cls)) (Group 1 (Plus (One Digit)))))
            (x @ seps @ ds @ rest, c0)
      = ms ic (Seq (Star (AnyOf cls)) (Group 1 (Plus (One Digit)))) (seps @ ds @ rest, c0)"
    using ms_Lit_prefix [OF l, of "seps @ ds @ rest" c0] by simp
  ultimately show ?thesis using grp by simp
qed

lemma re_exec_skip:
  "\<forall>j<length pre. ms ic r (drop j (pre @ t), []) = [] \<Longrightarrow>
   re_exec ic r (pre @ t) = re_exec ic r t"
proof (induction pre)
  case Nil
  show ?case by simp
next
  case (Cons p pre)
  from Cons.prems have "ms ic r (drop 0 ((p # pre) @ t), []) = []" by blast
  then have here: "ms ic r (p # pre @ t, []) = []" by simp
  have "\<forall>j<length pre. ms ic r (drop j (pre @ t), []) = []"
  proof (intro allI impI)
    fix j assume "j < length pre"
    then have "Suc j < length (p # pre)" by simp
    with Cons.prems have "ms ic r (drop (Suc j) ((p # pre) @ t), []) = []" by blast
    then show "ms ic r (drop j (pre @ t), []) = []" by simp
  qed
  with Cons.IH have "re_exec ic r (pre @ t) = re_exec ic r t" by blast
  with here show ?case by simp
qed

lemma re_exec_here: "ms ic r (t, []) = st # ys \<Longrightarrow> re_exec ic r t = Some st"
  by (cases t) simp_all

end
